theory Spec2Isabelle
  imports Main "HOL-Library.AList"
begin

section \<open>Python objects\<close>

text \<open>
  Every Python value that reaches \<^verbatim>\<open>func_utils.py\<close> is an object: an address and a
  content. The address is what the operator \<^verbatim>\<open>is\<close> compares. An object that the caller
  passes in carries \<open>Some a\<close>; an object that the code under study allocates itself (the
  tuple \<^verbatim>\<open>args[num_specargs:]\<close>, the dict \<^verbatim>\<open>unused_kwargs\<close>, the packed anonymous tuple)
  carries \<open>None\<close> and is identical to no other object. The structural types of
  \<^verbatim>\<open>core.api.types\<close> are objects too; only the two shapes the file distinguishes are
  kept apart (\<open>NamedTupleType\<close> and everything else). An element name is \<^verbatim>\<open>None\<close> or a
  string, possibly the empty one.
\<close>

datatype pyobj = PyObj (ident: "nat option") (val: pyval)
and pyval =
    PyNone
  | PyInt int
  | PyStr string
  | PyTuple "pyobj list"
  | PyDict "(string \<times> pyobj) list"
  | AnonymousTuple "(string option \<times> pyobj) list"
  | TensorType string
  | NamedTupleType "(string option \<times> pyobj) list"

type_synonym dict = "(string \<times> pyobj) list"

type_synonym elements = "(string option \<times> pyobj) list"

text \<open>\<^verbatim>\<open>a is b\<close>: the two references point to the same object.\<close>

definition py_is :: "pyobj \<Rightarrow> pyobj \<Rightarrow> bool" where
  "py_is a b = (case (ident a, ident b) of (Some i, Some j) \<Rightarrow> i = j | _ \<Rightarrow> False)"

text \<open>The truth value of an element name or collector name: \<^verbatim>\<open>None\<close> and \<^verbatim>\<open>''\<close> are false.\<close>

fun truthy_name :: "string option \<Rightarrow> bool" where
  "truthy_name None = False"
| "truthy_name (Some s) = (s \<noteq> [])"

section \<open>Errors\<close>

text \<open>
  The file raises \<^verbatim>\<open>TypeError\<close> everywhere and tells the cases apart by the message only;
  \<open>type_error\<close> is the message. \<open>MultipleValuesForArgument\<close> is the \<^verbatim>\<open>TypeError\<close> that
  Python raises at a call, before the body runs, when a keyword argument has the name of
  a parameter that a positional argument has filled. \<open>ExternalTypeError\<close> is a
  \<^verbatim>\<open>TypeError\<close> raised by a collaborator. The other constructors of \<open>error\<close> are the exceptions that Python itself
  raises on the paths of the file: an attribute looked up on \<^verbatim>\<open>None\<close>, an index out of
  range, a missing key, an unbound local variable, a failed \<^verbatim>\<open>assert\<close>.
\<close>

datatype type_error =
    TooManyPositionalArguments nat nat
  | DuplicateArgument string
  | MissingArgument string
  | UnexpectedKeywordArguments dict
  | MultipleValuesForArgument string
  | NoneNotSubscriptable
  | UnsupportedCallableKind
  | NotArgumentTuple
  | UnexpectedUnpackValue
  | IncompatibleNoParameterSignature
  | CannotAcceptAsSingleArgument
  | CannotAcceptAsMultipleArguments
  | CannotAcceptEitherForm
  | AmbiguousUnpackingChoice
  | ExternalTypeError string

datatype error =
    TypeError type_error
  | AttributeError
  | IndexError
  | KeyError string
  | NameError
  | AssertionError
  | OtherError string

fun is_TypeError :: "error \<Rightarrow> bool" where
  "is_TypeError (TypeError m) = True"
| "is_TypeError e = False"

section \<open>Collaborators\<close>

text \<open>
  The type system (\<^verbatim>\<open>types.to_type\<close>, \<^verbatim>\<open>type_utils.infer_type\<close>,
  \<^verbatim>\<open>Type.is_assignable_from\<close>, the \<^verbatim>\<open>repr\<close> of a type) and the iteration order of a
  Python 2 dict are not part of the file. They are parameters of every function that
  uses them. \<open>to_type\<close> yields a type object, which is true in a condition, or
  \<^verbatim>\<open>None\<close>, and it may raise, as \<open>infer_type\<close> may. A dict is the list of its items in
  insertion order with pairwise distinct keys; \<open>iteritems\<close> gives the order in which the
  runtime enumerates them, which Python 2 leaves to the implementation.
\<close>

record env =
  to_type :: "pyobj \<Rightarrow> error + pyobj option"
  infer_type :: "pyobj \<Rightarrow> error + pyobj"
  is_assignable_from :: "pyobj \<Rightarrow> pyobj \<Rightarrow> bool"
  repr :: "pyobj \<Rightarrow> string"
  iteritems :: "dict \<Rightarrow> dict"

text \<open>\<^verbatim>\<open>k in d\<close> for a dict.\<close>

definition dict_contains :: "('k \<times> 'v) list \<Rightarrow> 'k \<Rightarrow> bool" where
  "dict_contains d k = (map_of d k \<noteq> None)"

text \<open>
  The dict built from a sequence of items, as a dict comprehension builds it: a later
  item with a key already present replaces the value and keeps the position.
\<close>

definition dict_of_items :: "('k \<times> 'v) list \<Rightarrow> ('k \<times> 'v) list" where
  "dict_of_items items = foldl (\<lambda>d (k, v). AList.update k v d) [] items"

text \<open>\<^verbatim>\<open>xs[i]\<close> on a list: a negative index counts from the end.\<close>

definition py_getitem :: "'a list \<Rightarrow> int \<Rightarrow> error + 'a" where
  "py_getitem xs i =
     (if 0 \<le> i \<and> i < int (length xs) then Inr (xs ! nat i)
      else if i < 0 \<and> - int (length xs) \<le> i then Inr (xs ! nat (int (length xs) + i))
      else Inl IndexError)"

section \<open>\<^verbatim>\<open>inspect.ArgSpec\<close> and \<^verbatim>\<open>get_argspec\<close>\<close>

text \<open>
  \<open>defaults\<close> is \<^verbatim>\<open>None\<close> or a tuple, \<open>varargs\<close> and the field \<^verbatim>\<open>keywords\<close> (here
  \<open>keywords_name\<close>) are \<^verbatim>\<open>None\<close> or a name. Nested parameter patterns are left out.
\<close>

record argspec =
  args :: "string list"
  varargs :: "string option"
  keywords_name :: "string option"
  defaults :: "pyobj list option"

text \<open>
  A callable is known to this file by its class and by what \<^verbatim>\<open>inspect.getargspec\<close>
  says about it (about \<^verbatim>\<open>func._func\<close> for the two kinds of defun).
\<close>

datatype callable =
    FunctionType argspec
  | DefinedFunction argspec
  | OverloadedFunction argspec
  | OtherObject

fun is_defun :: "callable \<Rightarrow> bool" where
  "is_defun (DefinedFunction a) = True"
| "is_defun (OverloadedFunction a) = True"
| "is_defun f = False"

fun get_argspec :: "callable \<Rightarrow> error + argspec" where
  "get_argspec (FunctionType a) = Inr a"
| "get_argspec (DefinedFunction a) = Inr a"
| "get_argspec (OverloadedFunction a) = Inr a"
| "get_argspec OtherObject = Inl (TypeError UnsupportedCallableKind)"

section \<open>\<^verbatim>\<open>get_callargs_for_argspec\<close>\<close>

text \<open>
  The loop over \<^verbatim>\<open>enumerate(argspec.args)\<close>, with \<open>idx\<close> the index of the head of the
  remaining names and \<open>result\<close> the dict built so far. The argument is an \<open>argspec\<close> by
  its type, so the \<^verbatim>\<open>isinstance\<close> test at the head of the function has no branch here.
  The two subtractions are those of Python integers and may be negative.

  The signature is \<^verbatim>\<open>(argspec, *args, **kwargs)\<close>, and the same for
  \<^verbatim>\<open>is_argspec_compatible_with_types\<close>: the first parameter is always filled
  positionally, so a call with a keyword argument named \<^verbatim>\<open>argspec\<close> raises a
  \<^verbatim>\<open>TypeError\<close> before the body, and before its \<^verbatim>\<open>try\<close>.
\<close>

fun get_callargs_loop ::
  "int \<Rightarrow> pyobj list option \<Rightarrow> pyobj list \<Rightarrow> dict \<Rightarrow> nat \<Rightarrow> string list \<Rightarrow> dict \<Rightarrow> error + dict"
where
  "get_callargs_loop nwd dflts posargs kwargs idx [] result = Inr result"
| "get_callargs_loop nwd dflts posargs kwargs idx (specarg # rest) result =
     (if idx < length posargs then
        (if dict_contains kwargs specarg then Inl (TypeError (DuplicateArgument specarg))
         else get_callargs_loop nwd dflts posargs kwargs (Suc idx) rest
                (AList.update specarg (posargs ! idx) result))
      else
        (case map_of kwargs specarg of
           Some v \<Rightarrow>
             get_callargs_loop nwd dflts posargs kwargs (Suc idx) rest
               (AList.update specarg v result)
         | None \<Rightarrow>
             (if nwd \<le> int idx then
                (case dflts of
                   None \<Rightarrow> Inl (TypeError NoneNotSubscriptable)
                 | Some ds \<Rightarrow>
                     (case py_getitem ds (int idx - nwd) of
                        Inl e \<Rightarrow> Inl e
                      | Inr d \<Rightarrow>
                          get_callargs_loop nwd dflts posargs kwargs (Suc idx) rest
                            (AList.update specarg d result)))
              else Inl (TypeError (MissingArgument specarg)))))"

definition num_defaults :: "argspec \<Rightarrow> nat" where
  "num_defaults s = (case defaults s of None \<Rightarrow> 0 | Some ds \<Rightarrow> length ds)"

definition get_callargs_for_argspec ::
  "env \<Rightarrow> argspec \<Rightarrow> pyobj list \<Rightarrow> dict \<Rightarrow> error + dict"
where
  "get_callargs_for_argspec E s posargs kwargs =
     (let num_specargs = length (args s);
          num_specargs_without_defaults = int num_specargs - int (num_defaults s)
      in
      if dict_contains kwargs ''argspec'' then
        Inl (TypeError (MultipleValuesForArgument ''argspec''))
      else if length posargs > num_specargs \<and> \<not> truthy_name (varargs s) then
        Inl (TypeError (TooManyPositionalArguments num_specargs (length posargs)))
      else
        (case get_callargs_loop num_specargs_without_defaults (defaults s)
                posargs kwargs 0 (args s) [] of
           Inl e \<Rightarrow> Inl e
         | Inr result \<Rightarrow>
             (let unused_kwargs =
                    dict_of_items
                      (filter (\<lambda>(k, v). \<not> dict_contains result k) (iteritems E kwargs));
                  result1 =
                    (case varargs s of
                       Some va \<Rightarrow>
                         (if va \<noteq> [] then
                            AList.update va (PyObj None (PyTuple (drop num_specargs posargs)))
                              result
                          else result)
                     | None \<Rightarrow> result)
              in
              if truthy_name (keywords_name s) then
                Inr (AList.update (the (keywords_name s)) (PyObj None (PyDict unused_kwargs))
                       result1)
              else if unused_kwargs \<noteq> [] then
                Inl (TypeError (UnexpectedKeywordArguments unused_kwargs))
              else Inr result1)))"

section \<open>\<^verbatim>\<open>is_argspec_compatible_with_types\<close>\<close>

text \<open>
  The loop over \<^verbatim>\<open>enumerate(argspec.defaults)\<close> that follows the \<^verbatim>\<open>try\<close> block. Nothing
  in it is caught: what \<open>to_type\<close> or \<open>infer_type\<close> raise, and the attribute error of
  \<^verbatim>\<open>None.is_assignable_from\<close>, reach the caller.
\<close>

fun verify_defaults ::
  "env \<Rightarrow> string list \<Rightarrow> dict \<Rightarrow> int \<Rightarrow> nat \<Rightarrow> pyobj list \<Rightarrow> error + bool"
where
  "verify_defaults E names callargs nwd idx [] = Inr True"
| "verify_defaults E names callargs nwd idx (default_value # rest) =
     (if val default_value \<noteq> PyNone then
        (case py_getitem names (nwd + int idx) of
           Inl e \<Rightarrow> Inl e
         | Inr arg_name \<Rightarrow>
             (case map_of callargs arg_name of
                None \<Rightarrow> Inl (KeyError arg_name)
              | Some call_arg \<Rightarrow>
                  (if \<not> py_is call_arg default_value then
                     (case to_type E call_arg of
                        Inl e \<Rightarrow> Inl e
                      | Inr arg_type \<Rightarrow>
                          (case infer_type E default_value of
                             Inl e \<Rightarrow> Inl e
                           | Inr default_type \<Rightarrow>
                               (case arg_type of
                                  None \<Rightarrow> Inl AttributeError
                                | Some t \<Rightarrow>
                                    (if \<not> is_assignable_from E t default_type then Inr False
                                     else verify_defaults E names callargs nwd (Suc idx) rest))))
                   else verify_defaults E names callargs nwd (Suc idx) rest)))
      else verify_defaults E names callargs nwd (Suc idx) rest)"

definition is_argspec_compatible_with_types ::
  "env \<Rightarrow> argspec \<Rightarrow> pyobj list \<Rightarrow> dict \<Rightarrow> error + bool"
where
  "is_argspec_compatible_with_types E s posargs kwargs =
     (if dict_contains kwargs ''argspec'' then
        Inl (TypeError (MultipleValuesForArgument ''argspec''))
      else
        (case get_callargs_for_argspec E s posargs kwargs of
           Inl e \<Rightarrow> (if is_TypeError e then Inr False else Inl e)
         | Inr callargs \<Rightarrow>
             (case defaults s of
                None \<Rightarrow> Inr True
              | Some ds \<Rightarrow>
                  (if ds = [] then Inr True
                   else verify_defaults E (args s) callargs
                          (int (length (args s)) - int (length ds)) 0 ds))))"

section \<open>\<^verbatim>\<open>is_argument_tuple\<close>, \<^verbatim>\<open>unpack_args_from_tuple\<close>, \<^verbatim>\<open>pack_args_into_anonymous_tuple\<close>\<close>

text \<open>
  The scan of \<^verbatim>\<open>is_argument_tuple\<close>: \<open>idx\<close> is the index of the head of the remaining
  elements; the result is the final pair \<open>(max_unnamed, min_named)\<close>. An element counts as
  named when its name is true, that is, a string that is not empty.
\<close>

fun is_argument_tuple_loop ::
  "(string option \<times> 'a) list \<Rightarrow> nat \<Rightarrow> int \<Rightarrow> int \<Rightarrow> int \<times> int"
where
  "is_argument_tuple_loop [] idx max_unnamed min_named = (max_unnamed, min_named)"
| "is_argument_tuple_loop (element # rest) idx max_unnamed min_named =
     (if truthy_name (fst element) then
        is_argument_tuple_loop rest (Suc idx) max_unnamed (min min_named (int idx))
      else is_argument_tuple_loop rest (Suc idx) (int idx) min_named)"

definition elements_in_order :: "(string option \<times> 'a) list \<Rightarrow> bool" where
  "elements_in_order els =
     (case is_argument_tuple_loop els 0 (- 1) (int (length els)) of
        (max_unnamed, min_named) \<Rightarrow> max_unnamed < min_named)"

definition is_argument_tuple :: "env \<Rightarrow> pyobj \<Rightarrow> error + bool" where
  "is_argument_tuple E arg =
     (case val arg of
        AnonymousTuple els \<Rightarrow> Inr (elements_in_order els)
      | _ \<Rightarrow>
          (case to_type E arg of
             Inl e \<Rightarrow> Inl e
           | Inr None \<Rightarrow> Inr False
           | Inr (Some t) \<Rightarrow>
               (case val t of
                  NamedTupleType els \<Rightarrow> Inr (elements_in_order els)
                | _ \<Rightarrow> Inr False)))"

text \<open>The loop of \<^verbatim>\<open>unpack_args_from_tuple\<close>, with the list and the dict built so far.\<close>

fun unpack_loop :: "elements \<Rightarrow> pyobj list \<Rightarrow> dict \<Rightarrow> pyobj list \<times> dict" where
  "unpack_loop [] pos kw = (pos, kw)"
| "unpack_loop (e # rest) pos kw =
     (case fst e of
        Some name \<Rightarrow>
          (if name \<noteq> [] then unpack_loop rest pos (AList.update name (snd e) kw)
           else unpack_loop rest (pos @ [snd e]) kw)
      | None \<Rightarrow> unpack_loop rest (pos @ [snd e]) kw)"

definition unpack_args_from_tuple :: "env \<Rightarrow> pyobj \<Rightarrow> error + pyobj list \<times> dict" where
  "unpack_args_from_tuple E tuple_with_args =
     (case val tuple_with_args of
        AnonymousTuple els \<Rightarrow> Inr (unpack_loop els [] [])
      | _ \<Rightarrow>
          (case to_type E tuple_with_args of
             Inl e \<Rightarrow> Inl e
           | Inr None \<Rightarrow> Inl (TypeError NotArgumentTuple)
           | Inr (Some t) \<Rightarrow>
               (case val t of
                  NamedTupleType els \<Rightarrow> Inr (unpack_loop els [] [])
                | _ \<Rightarrow> Inl (TypeError NotArgumentTuple))))"

definition packed_elements :: "env \<Rightarrow> pyobj list \<Rightarrow> dict \<Rightarrow> elements" where
  "packed_elements E posargs kwargs =
     map (\<lambda>a. (None, a)) posargs @ map (\<lambda>(k, v). (Some k, v)) (iteritems E kwargs)"

definition pack_args_into_anonymous_tuple :: "env \<Rightarrow> pyobj list \<Rightarrow> dict \<Rightarrow> pyobj" where
  "pack_args_into_anonymous_tuple E posargs kwargs =
     PyObj None (AnonymousTuple (packed_elements E posargs kwargs))"

section \<open>\<^verbatim>\<open>wrap_as_zero_or_one_arg_callable\<close>\<close>

text \<open>
  The argument \<^verbatim>\<open>unpack\<close> is the object \<^verbatim>\<open>True\<close>, the object \<^verbatim>\<open>False\<close>, the object
  \<^verbatim>\<open>None\<close>, or another object. Of another object the function uses two things: whether
  it is equal to one of the three (as \<^verbatim>\<open>1\<close> and \<^verbatim>\<open>0\<close> are), which is what the test
  \<^verbatim>\<open>unpack not in [True, False, None]\<close> asks, and its truth value, which is what
  \<^verbatim>\<open>if unpack\<close> asks. The tests \<^verbatim>\<open>unpack is True\<close>, \<^verbatim>\<open>unpack is False\<close> and
  \<^verbatim>\<open>unpack is None\<close> are false for it. The result is one of the three closures the
  function returns, given by what it has captured. A local variable read before it is
  bound raises \<^verbatim>\<open>UnboundLocalError\<close>, which is a \<open>NameError\<close>.
\<close>

datatype unpack_arg =
    UnpackTrue
  | UnpackFalse
  | UnpackNone
  | UnpackObject (equal_to_one_of_three: bool) (truth_value: bool)

fun unpack_in_list :: "unpack_arg \<Rightarrow> bool" where
  "unpack_in_list (UnpackObject eq tv) = eq"
| "unpack_in_list u = True"

datatype adapter =
    CallNoArg callable
  | UnpackAndCall callable "pyobj list" dict
  | CallSingle callable pyobj

fun adapter_unpacks :: "adapter \<Rightarrow> bool" where
  "adapter_unpacks (UnpackAndCall f ats kts) = True"
| "adapter_unpacks a = False"

text \<open>
  The local variable \<^verbatim>\<open>unpack_required\<close> (line 333) and the three locals that the
  \<^verbatim>\<open>if is_argument_tuple(parameter_type)\<close> statement sets (lines 340 to 345):
  \<^verbatim>\<open>unpack_possible\<close>, and \<^verbatim>\<open>arg_types\<close> with \<^verbatim>\<open>kwarg_types\<close>, which stay unbound
  in the \<^verbatim>\<open>else\<close> branch.
\<close>

definition unpack_required :: "env \<Rightarrow> argspec \<Rightarrow> pyobj \<Rightarrow> error + bool" where
  "unpack_required E s parameter_type =
     (case is_argspec_compatible_with_types E s [parameter_type] [] of
        Inl e \<Rightarrow> Inl e
      | Inr c \<Rightarrow> Inr (\<not> c))"

definition unpack_possible ::
  "env \<Rightarrow> argspec \<Rightarrow> pyobj \<Rightarrow> error + bool \<times> (pyobj list \<times> dict) option"
where
  "unpack_possible E s parameter_type =
     (case is_argument_tuple E parameter_type of
        Inl e \<Rightarrow> Inl e
      | Inr True \<Rightarrow>
          (case unpack_args_from_tuple E parameter_type of
             Inl e \<Rightarrow> Inl e
           | Inr (arg_types, kwarg_types) \<Rightarrow>
               (case is_argspec_compatible_with_types E s arg_types kwarg_types of
                  Inl e \<Rightarrow> Inl e
                | Inr c \<Rightarrow> Inr (c, Some (arg_types, kwarg_types))))
      | Inr False \<Rightarrow> Inr (False, None))"

definition wrap_as_zero_or_one_arg_callable ::
  "env \<Rightarrow> callable \<Rightarrow> pyobj \<Rightarrow> unpack_arg \<Rightarrow> error + adapter"
where
  "wrap_as_zero_or_one_arg_callable E func parameter_type0 unpack =
     (if \<not> unpack_in_list unpack then Inl (TypeError UnexpectedUnpackValue)
      else
        (case get_argspec func of
           Inl e \<Rightarrow> Inl e
         | Inr s \<Rightarrow>
             (case to_type E parameter_type0 of
                Inl e \<Rightarrow> Inl e
              | Inr None \<Rightarrow>
                  (case is_argspec_compatible_with_types E s [] [] of
                     Inl e \<Rightarrow> Inl e
                   | Inr True \<Rightarrow> Inr (CallNoArg func)
                   | Inr False \<Rightarrow> Inl (TypeError IncompatibleNoParameterSignature))
              | Inr (Some parameter_type) \<Rightarrow>
                  (case unpack_required E s parameter_type of
                     Inl e \<Rightarrow> Inl e
                   | Inr required \<Rightarrow>
                       (if required \<and> unpack = UnpackFalse then
                          Inl (TypeError CannotAcceptAsSingleArgument)
                        else
                          (case unpack_possible E s parameter_type of
                             Inl e \<Rightarrow> Inl e
                           | Inr (possible, types) \<Rightarrow>
                               (if \<not> possible \<and> unpack = UnpackTrue then
                                  Inl (TypeError CannotAcceptAsMultipleArguments)
                                else if required \<and> \<not> possible then
                                  Inl (TypeError CannotAcceptEitherForm)
                                else if \<not> required \<and> possible \<and> unpack = UnpackNone then
                                  Inl (TypeError AmbiguousUnpackingChoice)
                                else if unpack = UnpackNone \<and> required \<noteq> possible then
                                  Inl AssertionError
                                else if (case unpack of
                                           UnpackNone \<Rightarrow> possible
                                         | UnpackTrue \<Rightarrow> True
                                         | UnpackFalse \<Rightarrow> False
                                         | UnpackObject eq tv \<Rightarrow> tv) then
                                  (case types of
                                     None \<Rightarrow> Inl NameError
                                   | Some (arg_types, kwarg_types) \<Rightarrow>
                                       Inr (UnpackAndCall func arg_types kwarg_types))
                                else Inr (CallSingle func parameter_type))))))))"

section \<open>\<^verbatim>\<open>PolymorphicFunction\<close>\<close>

text \<open>
  A concrete function is a Python object: it has a truth value (\<^verbatim>\<open>True\<close> for a plain
  function, whatever \<^verbatim>\<open>__nonzero__\<close> or \<^verbatim>\<open>__len__\<close> say for an object that defines
  them) and it answers a call. The factory may raise.
\<close>

datatype concrete_fn =
  ConcreteFn (truth: bool) (body: "pyobj list \<Rightarrow> dict \<Rightarrow> error + pyobj")

record polymorphic_function =
  concrete_function_factory :: "pyobj \<Rightarrow> error + concrete_fn"
  concrete_function_cache :: "(string \<times> concrete_fn) list"

definition PolymorphicFunction_init ::
  "(pyobj \<Rightarrow> error + concrete_fn) \<Rightarrow> polymorphic_function"
where
  "PolymorphicFunction_init factory =
     \<lparr>concrete_function_factory = factory, concrete_function_cache = []\<rparr>"

text \<open>
  \<^verbatim>\<open>__call__\<close> returns the outcome of the call, the object after the call, and the
  arguments with which the factory was invoked during the call, in order. Its signature
  is \<^verbatim>\<open>(self, *args, **kwargs)\<close>: a call with a keyword argument named \<^verbatim>\<open>self\<close> raises
  a \<^verbatim>\<open>TypeError\<close> before the body.
\<close>

definition PolymorphicFunction_call ::
  "env \<Rightarrow> polymorphic_function \<Rightarrow> pyobj list \<Rightarrow> dict \<Rightarrow>
     (error + pyobj) \<times> polymorphic_function \<times> pyobj list"
where
  "PolymorphicFunction_call E self posargs kwargs =
     (if dict_contains kwargs ''self'' then
        (Inl (TypeError (MultipleValuesForArgument ''self'')), self, [])
      else
        (let packed_arg = pack_args_into_anonymous_tuple E posargs kwargs in
         case infer_type E packed_arg of
           Inl e \<Rightarrow> (Inl e, self, [])
         | Inr arg_type \<Rightarrow>
             (let key = repr E arg_type;
                  cached = map_of (concrete_function_cache self) key
              in
              if (case cached of None \<Rightarrow> False | Some f \<Rightarrow> truth f) then
                (body (the cached) posargs kwargs, self, [])
              else
                (case concrete_function_factory self arg_type of
                   Inl e \<Rightarrow> (Inl e, self, [arg_type])
                 | Inr concrete_fn \<Rightarrow>
                     (body concrete_fn posargs kwargs,
                      self\<lparr>concrete_function_cache :=
                             AList.update key concrete_fn (concrete_function_cache self)\<rparr>,
                      [arg_type])))))"

text \<open>
  A sequence of calls on one object: the outcomes, the object at the end, and all
  invocations of the factory, oldest first. An exception ends one call, not the sequence.
\<close>

fun run_calls ::
  "env \<Rightarrow> polymorphic_function \<Rightarrow> (pyobj list \<times> dict) list \<Rightarrow>
     (error + pyobj) list \<times> polymorphic_function \<times> pyobj list"
where
  "run_calls E self [] = ([], self, [])"
| "run_calls E self (c # cs) =
     (case PolymorphicFunction_call E self (fst c) (snd c) of
        (r, self1, invoked) \<Rightarrow>
          (case run_calls E self1 cs of
             (rs, self2, invoked2) \<Rightarrow> (r # rs, self2, invoked @ invoked2)))"

section \<open>Notions used to state the properties\<close>

text \<open>
  An element is named when it has a name, that is, when its name is not \<^verbatim>\<open>None\<close>. The
  file asks something else of an element, the truth of its name: an element counts as
  named for the file when its name is a string that is not empty. The two differ on an
  element named by the empty string.
\<close>

definition is_named :: "string option \<times> 'a \<Rightarrow> bool" where
  "is_named e = (fst e \<noteq> None)"

definition counts_as_named :: "string option \<times> 'a \<Rightarrow> bool" where
  "counts_as_named e = truthy_name (fst e)"

text \<open>
  The elements that \<^verbatim>\<open>is_argument_tuple\<close> and \<^verbatim>\<open>unpack_args_from_tuple\<close> look at: those
  of an anonymous tuple, or those of the named tuple type that \<open>to_type\<close> makes of the
  argument; \<open>None\<close> when the argument is neither.
\<close>

definition classify :: "env \<Rightarrow> pyobj \<Rightarrow> error + elements option" where
  "classify E x =
     (case val x of
        AnonymousTuple els \<Rightarrow> Inr (Some els)
      | _ \<Rightarrow>
          (case to_type E x of
             Inl e \<Rightarrow> Inl e
           | Inr None \<Rightarrow> Inr None
           | Inr (Some t) \<Rightarrow>
               (case val t of NamedTupleType els \<Rightarrow> Inr (Some els) | _ \<Rightarrow> Inr None)))"

text \<open>Unpacking, then packing the two parts again.\<close>

definition unpack_then_pack :: "env \<Rightarrow> pyobj \<Rightarrow> error + pyobj" where
  "unpack_then_pack E x =
     (case unpack_args_from_tuple E x of
        Inl e \<Rightarrow> Inl e
      | Inr (pos, kw) \<Rightarrow> Inr (pack_args_into_anonymous_tuple E pos kw))"

text \<open>
  A small type system and two objects, on which the functions are run: integers and
  strings have a scalar type, an anonymous tuple has the named tuple type of its element
  types, a type is assignable from an equal type, and a dict is enumerated in insertion
  order.
\<close>

definition sample_scalar_type :: "pyobj \<Rightarrow> pyobj" where
  "sample_scalar_type x =
     (case val x of
        PyInt i \<Rightarrow> PyObj None (TensorType ''int32'')
      | PyStr s \<Rightarrow> PyObj None (TensorType ''string'')
      | _ \<Rightarrow> PyObj None (TensorType ''object''))"

definition sample_to_type :: "pyobj \<Rightarrow> error + pyobj option" where
  "sample_to_type x =
     (case val x of
        PyNone \<Rightarrow> Inr None
      | TensorType n \<Rightarrow> Inr (Some x)
      | NamedTupleType els \<Rightarrow> Inr (Some x)
      | _ \<Rightarrow> Inl (TypeError (ExternalTypeError ''to_type'')))"

definition sample_infer_type :: "pyobj \<Rightarrow> error + pyobj" where
  "sample_infer_type x =
     (case val x of
        PyInt i \<Rightarrow> Inr (sample_scalar_type x)
      | PyStr s \<Rightarrow> Inr (sample_scalar_type x)
      | AnonymousTuple els \<Rightarrow>
          Inr (PyObj None (NamedTupleType (map (\<lambda>(n, v). (n, sample_scalar_type v)) els)))
      | _ \<Rightarrow> Inl (TypeError (ExternalTypeError ''infer_type'')))"

definition sample_repr :: "pyobj \<Rightarrow> string" where
  "sample_repr t =
     (case val t of
        TensorType n \<Rightarrow> n
      | NamedTupleType els \<Rightarrow>
          concat (map (\<lambda>(n, u). ''<'' @ (case n of None \<Rightarrow> [] | Some s \<Rightarrow> s @ ''='')
                        @ (case val u of TensorType m \<Rightarrow> m | _ \<Rightarrow> ''?'') @ ''>'') els)
      | _ \<Rightarrow> ''?'')"

definition sample_env :: env where
  "sample_env =
     \<lparr>to_type = sample_to_type, infer_type = sample_infer_type,
      is_assignable_from = (\<lambda>a b. val a = val b), repr = sample_repr,
      iteritems = (\<lambda>d. d)\<rparr>"

definition obj1 :: pyobj where "obj1 = PyObj (Some 1) (PyInt 10)"
definition obj2 :: pyobj where "obj2 = PyObj (Some 2) (PyInt 20)"

text \<open>
  The type that \<^verbatim>\<open>__call__\<close> infers for the arguments of a call, the key of its
  cache. A call with a keyword argument named \<^verbatim>\<open>self\<close> does not reach the body and has
  no inferred type.
\<close>

definition inferred_type :: "env \<Rightarrow> pyobj list \<times> dict \<Rightarrow> error + pyobj" where
  "inferred_type E c =
     (if dict_contains (snd c) ''self'' then
        Inl (TypeError (MultipleValuesForArgument ''self''))
      else infer_type E (pack_args_into_anonymous_tuple E (fst c) (snd c)))"

text \<open>
  The types of a sequence of calls that were not seen before, in the order of their first
  occurrence; \<open>seen\<close> are the types seen so far.
\<close>

fun new_types :: "pyobj list \<Rightarrow> pyobj list \<Rightarrow> pyobj list" where
  "new_types seen [] = []"
| "new_types seen (t # ts) =
     (if t \<in> set seen then new_types seen ts else t # new_types (seen @ [t]) ts)"

text \<open>The cache that holds the concrete function \<open>F t\<close> for each type \<open>t\<close> of \<open>seen\<close>.\<close>

definition cache_of :: "env \<Rightarrow> (pyobj \<Rightarrow> concrete_fn) \<Rightarrow> pyobj list \<Rightarrow> (string \<times> concrete_fn) list" where
  "cache_of E F seen = map (\<lambda>t. (repr E t, F t)) seen"

text \<open>
  A callable object whose truth value is false, and for every type a plain function; a
  third object, a string.
\<close>

definition falsy_fn :: concrete_fn where
  "falsy_fn = ConcreteFn False (\<lambda>a k. Inr (PyObj None PyNone))"

definition sample_fn :: "pyobj \<Rightarrow> concrete_fn" where
  "sample_fn t = ConcreteFn True (\<lambda>a k. Inr t)"

definition obj3 :: pyobj where "obj3 = PyObj (Some 3) (PyStr ''x'')"

text \<open>The object after one call, and after a sequence of calls.\<close>

definition object_after_call ::
  "env \<Rightarrow> polymorphic_function \<Rightarrow> pyobj list \<times> dict \<Rightarrow> polymorphic_function"
where
  "object_after_call E self c = fst (snd (PolymorphicFunction_call E self (fst c) (snd c)))"

definition object_after_calls ::
  "env \<Rightarrow> polymorphic_function \<Rightarrow> (pyobj list \<times> dict) list \<Rightarrow> polymorphic_function"
where
  "object_after_calls E self cs = fst (snd (run_calls E self cs))"

text \<open>
  A factory that returns the callable object whose truth value is false for the type of
  one integer argument, and a plain function for every other type.
\<close>

definition int_call_type :: pyobj where
  "int_call_type = PyObj None (NamedTupleType [(None, PyObj None (TensorType ''int32''))])"

definition falsy_for_int :: "pyobj \<Rightarrow> error + concrete_fn" where
  "falsy_for_int t = (if t = int_call_type then Inr falsy_fn else Inr (sample_fn t))"

text \<open>
  The three preferences of the specification and the value of \<^verbatim>\<open>unpack\<close> that stands
  for each. The resolution table as the specification words it, for given values of
  \<open>unpack_required\<close> and \<open>unpack_possible\<close>: the first failure case that applies, in the
  stated order, or none; and the effective decision when none applies.
\<close>

datatype unpack_preference = Required | Forbidden | Infer

fun unpack_of :: "unpack_preference \<Rightarrow> unpack_arg" where
  "unpack_of Required = UnpackTrue"
| "unpack_of Forbidden = UnpackFalse"
| "unpack_of Infer = UnpackNone"

fun resolution_table :: "unpack_preference \<Rightarrow> bool \<Rightarrow> bool \<Rightarrow> type_error option" where
  "resolution_table preference required possible =
     (if required \<and> preference = Forbidden then Some CannotAcceptAsSingleArgument
      else if \<not> possible \<and> preference = Required then Some CannotAcceptAsMultipleArguments
      else if required \<and> \<not> possible then Some CannotAcceptEitherForm
      else if \<not> required \<and> possible \<and> preference = Infer then Some AmbiguousUnpackingChoice
      else None)"

definition effective_unpack :: "unpack_preference \<Rightarrow> bool \<Rightarrow> bool" where
  "effective_unpack preference possible =
     (preference = Required \<or> (preference = Infer \<and> possible))"

text \<open>Two functions without defaults and two parameter types for them.\<close>

definition func_xy :: callable where
  "func_xy = FunctionType \<lparr>args = [''x'', ''y''], varargs = None, keywords_name = None, defaults = None\<rparr>"

definition func_x :: callable where
  "func_x = FunctionType \<lparr>args = [''x''], varargs = None, keywords_name = None, defaults = None\<rparr>"

definition int32 :: pyobj where "int32 = PyObj (Some 10) (TensorType ''int32'')"

definition pair_type :: pyobj where
  "pair_type = PyObj (Some 11) (NamedTupleType [(None, int32), (None, int32)])"

definition single_type :: pyobj where
  "single_type = PyObj (Some 12) (NamedTupleType [(None, int32)])"

text \<open>
  One round of the loop over the defaults goes on to the next default: the default at
  position \<open>pos\<close> of the names is \<^verbatim>\<open>None\<close>, or it is the very object bound to its name,
  or the type of the bound object is assignable from the inferred type of the default.
\<close>

definition default_passes :: "env \<Rightarrow> string list \<Rightarrow> dict \<Rightarrow> int \<Rightarrow> pyobj \<Rightarrow> bool" where
  "default_passes E names callargs pos d =
     (val d = PyNone \<or>
      (\<exists>name c. py_getitem names pos = Inr name \<and> map_of callargs name = Some c \<and>
         (py_is c d \<or>
          (\<exists>t dt. to_type E c = Inr (Some t) \<and> infer_type E d = Inr dt
                   \<and> is_assignable_from E t dt))))"

text \<open>
  The argspecs \<^verbatim>\<open>[a, b=5]\<close> and \<^verbatim>\<open>[a, argspec=5]\<close>, and the type of strings.
\<close>

definition five :: pyobj where "five = PyObj (Some 5) (PyInt 5)"


definition spec_a_argspec :: argspec where
  "spec_a_argspec =
     \<lparr>args = [''a'', ''argspec''], varargs = None, keywords_name = None,
      defaults = Some [five]\<rparr>"

definition spec_ab :: argspec where
  "spec_ab = \<lparr>args = [''a'', ''b''], varargs = None, keywords_name = None, defaults = Some [five]\<rparr>"

section \<open>Dicts and calls\<close>

lemma dict_contains_Nil [simp]: "\<not> dict_contains [] k"
  by (simp add: dict_contains_def)

lemma get_callargs_no_clash:
  "get_callargs_for_argspec E s posargs kwargs = Inr callargs \<Longrightarrow>
     \<not> dict_contains kwargs ''argspec''"
  by (auto simp: get_callargs_for_argspec_def Let_def split: if_splits)

section \<open>The scan of \<^verbatim>\<open>is_argument_tuple\<close>\<close>

lemma loop_named_seen:
  "mn < int idx \<Longrightarrow> is_argument_tuple_loop es idx mu mn = (mu', mn') \<Longrightarrow>
     mn' = mn \<and> (list_all counts_as_named es \<longrightarrow> mu' = mu) \<and> (\<not> list_all counts_as_named es \<longrightarrow> int idx \<le> mu')"
proof (induction es arbitrary: idx mu)
  case Nil
  then show ?case by simp
next
  case (Cons e es)
  show ?case
  proof (cases "counts_as_named e")
    case True
    with Cons.prems have r: "is_argument_tuple_loop es (Suc idx) mu mn = (mu', mn')"
      by (simp add: counts_as_named_def min_def)
    from Cons.prems(1) have "mn < int (Suc idx)" by simp
    from Cons.IH[OF this r] True show ?thesis by auto
  next
    case False
    with Cons.prems have r: "is_argument_tuple_loop es (Suc idx) (int idx) mn = (mu', mn')"
      by (simp add: counts_as_named_def)
    from Cons.prems(1) have "mn < int (Suc idx)" by simp
    from Cons.IH[OF this r] False show ?thesis by auto
  qed
qed

lemma loop_no_named_seen:
  "mu < int idx \<Longrightarrow> int idx + int (length es) \<le> mn \<Longrightarrow>
   is_argument_tuple_loop es idx mu mn = (mu', mn') \<Longrightarrow>
   (mu' < mn') = list_all counts_as_named (dropWhile (\<lambda>e. \<not> counts_as_named e) es)"
proof (induction es arbitrary: idx mu)
  case Nil
  then show ?case by simp
next
  case (Cons e es)
  show ?case
  proof (cases "counts_as_named e")
    case True
    from Cons.prems(2) have "min mn (int idx) = int idx" by simp
    with True Cons.prems have r: "is_argument_tuple_loop es (Suc idx) mu (int idx) = (mu', mn')"
      by (simp add: counts_as_named_def)
    have "int idx < int (Suc idx)" by simp
    from loop_named_seen[OF this r] Cons.prems(1) True show ?thesis by auto
  next
    case False
    with Cons.prems have r: "is_argument_tuple_loop es (Suc idx) (int idx) mn = (mu', mn')"
      by (simp add: counts_as_named_def)
    have a: "int idx < int (Suc idx)" by simp
    from Cons.prems(2) have b: "int (Suc idx) + int (length es) \<le> mn" by simp
    from Cons.IH[OF a b r] False show ?thesis by simp
  qed
qed

lemma elements_in_order_iff:
  "elements_in_order els = list_all counts_as_named (dropWhile (\<lambda>e. \<not> counts_as_named e) els)"
proof -
  obtain mu' mn' where r: "is_argument_tuple_loop els 0 (- 1) (int (length els)) = (mu', mn')"
    by (cases "is_argument_tuple_loop els 0 (- 1) (int (length els))") auto
  have "(mu' < mn') = list_all counts_as_named (dropWhile (\<lambda>e. \<not> counts_as_named e) els)"
    by (rule loop_no_named_seen[OF _ _ r]) simp_all
  with r show ?thesis by (simp add: elements_in_order_def)
qed

lemma named_before_unnamed:
  "list_all counts_as_named (dropWhile (\<lambda>e. \<not> counts_as_named e) els) =
     (\<not> (\<exists>i j. i < j \<and> j < length els \<and> counts_as_named (els ! i) \<and> \<not> counts_as_named (els ! j)))"
proof (induction els)
  case Nil
  then show ?case by simp
next
  case (Cons e es)
  show ?case
  proof (cases "counts_as_named e")
    case True
    have "list_all counts_as_named es = (\<not> (\<exists>j. j < length es \<and> \<not> counts_as_named (es ! j)))"
      by (auto simp: list_all_length)
    moreover have "(\<exists>i j. i < j \<and> j < length (e # es) \<and> counts_as_named ((e # es) ! i) \<and> \<not> counts_as_named ((e # es) ! j))
        = (\<exists>j. j < length es \<and> \<not> counts_as_named (es ! j))"
    proof
      assume "\<exists>i j. i < j \<and> j < length (e # es) \<and> counts_as_named ((e # es) ! i) \<and> \<not> counts_as_named ((e # es) ! j)"
      then obtain i j where h: "i < j" "j < length (e # es)" "\<not> counts_as_named ((e # es) ! j)" by blast
      then obtain j' where "j = Suc j'" by (cases j) auto
      with h show "\<exists>j. j < length es \<and> \<not> counts_as_named (es ! j)" by auto
    next
      assume "\<exists>j. j < length es \<and> \<not> counts_as_named (es ! j)"
      then obtain j where "j < length es" "\<not> counts_as_named (es ! j)" by blast
      with True have "0 < Suc j \<and> Suc j < length (e # es) \<and> counts_as_named ((e # es) ! 0) \<and> \<not> counts_as_named ((e # es) ! Suc j)"
        by simp
      then show "\<exists>i j. i < j \<and> j < length (e # es) \<and> counts_as_named ((e # es) ! i) \<and> \<not> counts_as_named ((e # es) ! j)"
        by blast
    qed
    ultimately show ?thesis using True by simp
  next
    case False
    have "(\<exists>i j. i < j \<and> j < length (e # es) \<and> counts_as_named ((e # es) ! i) \<and> \<not> counts_as_named ((e # es) ! j))
        = (\<exists>i j. i < j \<and> j < length es \<and> counts_as_named (es ! i) \<and> \<not> counts_as_named (es ! j))"
    proof
      assume "\<exists>i j. i < j \<and> j < length (e # es) \<and> counts_as_named ((e # es) ! i) \<and> \<not> counts_as_named ((e # es) ! j)"
      then obtain i j where h: "i < j" "j < length (e # es)" "counts_as_named ((e # es) ! i)" "\<not> counts_as_named ((e # es) ! j)" by blast
      from h(3) False obtain i' where i: "i = Suc i'" by (cases i) auto
      with h(1) obtain j' where j: "j = Suc j'" by (cases j) auto
      from h i j have "i' < j' \<and> j' < length es \<and> counts_as_named (es ! i') \<and> \<not> counts_as_named (es ! j')" by simp
      then show "\<exists>i j. i < j \<and> j < length es \<and> counts_as_named (es ! i) \<and> \<not> counts_as_named (es ! j)" by blast
    next
      assume "\<exists>i j. i < j \<and> j < length es \<and> counts_as_named (es ! i) \<and> \<not> counts_as_named (es ! j)"
      then obtain i j where "i < j" "j < length es" "counts_as_named (es ! i)" "\<not> counts_as_named (es ! j)" by blast
      then have "Suc i < Suc j \<and> Suc j < length (e # es) \<and> counts_as_named ((e # es) ! Suc i) \<and> \<not> counts_as_named ((e # es) ! Suc j)" by simp
      then show "\<exists>i j. i < j \<and> j < length (e # es) \<and> counts_as_named ((e # es) ! i) \<and> \<not> counts_as_named ((e # es) ! j)" by blast
    qed
    with Cons.IH False show ?thesis by simp
  qed
qed

lemma is_argument_tuple_classify:
  "is_argument_tuple E x =
     (case classify E x of
        Inl e \<Rightarrow> Inl e
      | Inr None \<Rightarrow> Inr False
      | Inr (Some els) \<Rightarrow> Inr (elements_in_order els))"
  by (simp add: is_argument_tuple_def classify_def split: pyval.splits sum.splits option.splits)

lemma unpack_classify:
  "unpack_args_from_tuple E x =
     (case classify E x of
        Inl e \<Rightarrow> Inl e
      | Inr None \<Rightarrow> Inl (TypeError NotArgumentTuple)
      | Inr (Some els) \<Rightarrow> Inr (unpack_loop els [] []))"
  by (simp add: unpack_args_from_tuple_def classify_def split: pyval.splits sum.splits option.splits)

lemma unpack_loop_fst:
  "fst (unpack_loop els pos kw) = pos @ map snd (filter (\<lambda>e. \<not> counts_as_named e) els)"
  by (induction els pos kw rule: unpack_loop.induct)
     (auto simp: counts_as_named_def split: option.splits)

lemma unpack_loop_snd:
  "snd (unpack_loop els pos kw) =
     foldl (\<lambda>d e. AList.update (the (fst e)) (snd e) d) kw (filter counts_as_named els)"
  by (induction els pos kw rule: unpack_loop.induct)
     (auto simp: counts_as_named_def split: option.splits)

lemma update_fresh: "k \<notin> fst ` set al \<Longrightarrow> AList.update k v al = al @ [(k, v)]"
  by (induction al) auto

lemma foldl_update_distinct:
  "distinct (map fst kw @ map (\<lambda>e. the (fst e)) ns) \<Longrightarrow>
   foldl (\<lambda>d e. AList.update (the (fst e)) (snd e) d) kw ns
     = kw @ map (\<lambda>e. (the (fst e), snd e)) ns"
proof (induction ns arbitrary: kw)
  case Nil
  then show ?case by simp
next
  case (Cons e ns)
  from Cons.prems have fresh: "the (fst e) \<notin> fst ` set kw" by auto
  have step: "AList.update (the (fst e)) (snd e) kw = kw @ [(the (fst e), snd e)]"
    by (rule update_fresh[OF fresh])
  from Cons.prems have "distinct (map fst (kw @ [(the (fst e), snd e)]) @ map (\<lambda>e. the (fst e)) ns)"
    by auto
  from Cons.IH[OF this] step show ?case by simp
qed

lemma in_order_split:
  "elements_in_order (us @ ns)" if "list_all (\<lambda>e. \<not> counts_as_named e) us" "list_all counts_as_named ns"
proof -
  from that(1) have "dropWhile (\<lambda>e. \<not> counts_as_named e) (us @ ns) = dropWhile (\<lambda>e. \<not> counts_as_named e) ns"
    by (simp add: list_all_iff)
  moreover from that(2) have "list_all counts_as_named (dropWhile (\<lambda>e. \<not> counts_as_named e) ns)"
    using set_dropWhileD by (fastforce simp: list_all_iff)
  ultimately show ?thesis by (simp add: elements_in_order_iff)
qed

text \<open>
  Claim C6, as amended. An element counts as named when its name is a string that is not
  empty; an element with no name, and an element named by the empty string, count as
  unnamed. For every sequence of elements, \<^verbatim>\<open>is_argument_tuple\<close> is false whenever an
  element that counts as named stands strictly before one that does not, and it is true
  for a sequence of elements that count as unnamed only, for a sequence of elements that
  count as named only, for elements that count as unnamed followed by elements that count
  as named, and for the empty sequence. Where no element is named by the empty string, an
  element counts as named exactly when it has a name.
\<close>

theorem is_argument_tuple_order:
  assumes "classify E x = Inr (Some els)"
  shows "((\<exists>i j. i < j \<and> j < length els \<and> counts_as_named (els ! i) \<and> \<not> counts_as_named (els ! j))
            \<longrightarrow> is_argument_tuple E x = Inr False)
       \<and> (list_all (\<lambda>e. \<not> counts_as_named e) els \<longrightarrow> is_argument_tuple E x = Inr True)
       \<and> (list_all counts_as_named els \<longrightarrow> is_argument_tuple E x = Inr True)
       \<and> ((\<exists>us ns. els = us @ ns \<and> list_all (\<lambda>e. \<not> counts_as_named e) us \<and> list_all counts_as_named ns)
            \<longrightarrow> is_argument_tuple E x = Inr True)
       \<and> (els = [] \<longrightarrow> is_argument_tuple E x = Inr True)
       \<and> ((\<forall>e\<in>set els. fst e \<noteq> Some []) \<longrightarrow> (\<forall>e\<in>set els. counts_as_named e = is_named e))"
proof -
  have r: "is_argument_tuple E x = Inr (elements_in_order els)"
    using assms by (simp add: is_argument_tuple_classify)
  have a: "(\<exists>i j. i < j \<and> j < length els \<and> counts_as_named (els ! i) \<and> \<not> counts_as_named (els ! j))
            \<longrightarrow> \<not> elements_in_order els"
    by (simp only: elements_in_order_iff named_before_unnamed) blast
  have b: "list_all (\<lambda>e. \<not> counts_as_named e) els \<longrightarrow> elements_in_order els"
    using in_order_split[of els "[]"] by simp
  have c: "list_all counts_as_named els \<longrightarrow> elements_in_order els"
    using in_order_split[of "[]" els] by simp
  have d: "(\<exists>us ns. els = us @ ns \<and> list_all (\<lambda>e. \<not> counts_as_named e) us \<and> list_all counts_as_named ns)
            \<longrightarrow> elements_in_order els"
    using in_order_split by blast
  have e: "els = [] \<longrightarrow> elements_in_order els"
    using c by (cases els) simp_all
  have g: "counts_as_named e = is_named e" if "fst e \<noteq> Some []" for e :: "string option \<times> pyobj"
    using that by (cases "fst e") (simp_all add: counts_as_named_def is_named_def)
  have f: "(\<forall>e\<in>set els. fst e \<noteq> Some []) \<longrightarrow> (\<forall>e\<in>set els. counts_as_named e = is_named e)"
    using g by blast
  from a have a': "(\<exists>i j. i < j \<and> j < length els \<and> counts_as_named (els ! i) \<and> \<not> counts_as_named (els ! j))
            \<longrightarrow> is_argument_tuple E x = Inr False"
    unfolding r by simp
  from b have b': "list_all (\<lambda>e. \<not> counts_as_named e) els \<longrightarrow> is_argument_tuple E x = Inr True"
    unfolding r by simp
  from c have c': "list_all counts_as_named els \<longrightarrow> is_argument_tuple E x = Inr True"
    unfolding r by simp
  from d have d': "(\<exists>us ns. els = us @ ns \<and> list_all (\<lambda>e. \<not> counts_as_named e) us \<and> list_all counts_as_named ns)
            \<longrightarrow> is_argument_tuple E x = Inr True"
    unfolding r by simp
  from e have e': "els = [] \<longrightarrow> is_argument_tuple E x = Inr True"
    unfolding r by simp
  from a' b' c' d' e' f show ?thesis by (intro conjI)
qed

theorem is_argument_tuple_order_witness:
  "is_argument_tuple sample_env (PyObj (Some 0) (AnonymousTuple [(Some ''a'', obj1), (None, obj2)]))
     = Inr False
   \<and> is_argument_tuple sample_env (PyObj (Some 0) (AnonymousTuple [(None, obj1), (Some ''a'', obj2)]))
     = Inr True
   \<and> counts_as_named (Some ''a'', obj2) = is_named (Some ''a'', obj2)"
proof -
  let ?bad = "[(Some ''a'', obj1), (None, obj2)]"
  let ?good = "[(None, obj1), (Some ''a'', obj2)]"
  have c1: "classify sample_env (PyObj (Some 0) (AnonymousTuple ?bad)) = Inr (Some ?bad)"
    by (simp add: classify_def)
  have c2: "classify sample_env (PyObj (Some 0) (AnonymousTuple ?good)) = Inr (Some ?good)"
    by (simp add: classify_def)
  have "0 < (1::nat) \<and> 1 < length ?bad \<and> counts_as_named (?bad ! 0) \<and> \<not> counts_as_named (?bad ! 1)"
    by (simp add: counts_as_named_def)
  then have ex: "\<exists>i j. i < j \<and> j < length ?bad \<and> counts_as_named (?bad ! i) \<and> \<not> counts_as_named (?bad ! j)"
    by blast
  have "?good = [(None, obj1)] @ [(Some ''a'', obj2)] \<and> list_all (\<lambda>e. \<not> counts_as_named e) [(None, obj1)]
          \<and> list_all counts_as_named [(Some ''a'', obj2)]"
    by (simp add: counts_as_named_def)
  then have sp: "\<exists>us ns. ?good = us @ ns \<and> list_all (\<lambda>e. \<not> counts_as_named e) us \<and> list_all counts_as_named ns"
    by blast
  have ne: "\<forall>e\<in>set ?good. fst e \<noteq> Some []"
    by simp
  from is_argument_tuple_order[OF c1] ex
  have p1: "is_argument_tuple sample_env (PyObj (Some 0) (AnonymousTuple ?bad)) = Inr False"
    by blast
  from is_argument_tuple_order[OF c2] sp
  have p2: "is_argument_tuple sample_env (PyObj (Some 0) (AnonymousTuple ?good)) = Inr True"
    by blast
  from is_argument_tuple_order[OF c2] ne
  have "\<forall>e\<in>set ?good. counts_as_named e = is_named e"
    by blast
  then have p3: "counts_as_named (Some ''a'', obj2) = is_named (Some ''a'', obj2)"
    by simp
  from p1 p2 p3 show ?thesis by (intro conjI)
qed

text \<open>
  Claim C6 as stated, with an element named when it has a name, fails on an element named
  by the empty string. A sequence of named elements only is rejected, and a sequence with a
  named element strictly before an unnamed one is accepted.
\<close>

theorem is_argument_tuple_order_counterexample:
  "list_all is_named [(Some ''a'', obj1), (Some [], obj2), (Some ''b'', obj3)]
   \<and> is_argument_tuple sample_env
       (PyObj (Some 0) (AnonymousTuple [(Some ''a'', obj1), (Some [], obj2), (Some ''b'', obj3)]))
       = Inr False
   \<and> is_named (Some [], obj1) \<and> \<not> is_named (None, obj2)
   \<and> is_argument_tuple sample_env
       (PyObj (Some 0) (AnonymousTuple [(Some [], obj1), (None, obj2)])) = Inr True"
  by (simp add: is_named_def is_argument_tuple_def elements_in_order_def)

section \<open>Names that are the empty string\<close>

lemma is_named_empty_name: "\<not> counts_as_named (Some [], v)" "\<not> counts_as_named (None, v)"
  by (simp_all add: counts_as_named_def)

lemma in_order_flags:
  "elements_in_order els = list_all id (dropWhile Not (map counts_as_named els))"
  unfolding elements_in_order_iff by (induction els) (auto simp: list_all_iff)

lemma in_order_cong:
  "map counts_as_named els = map counts_as_named els' \<Longrightarrow> elements_in_order els = elements_in_order els'"
  by (simp add: in_order_flags)

text \<open>
  Claim C10, as amended. An element whose name is the empty string is treated as unnamed
  by \<^verbatim>\<open>is_argument_tuple\<close> and by \<^verbatim>\<open>unpack_args_from_tuple\<close>, which test the name for
  truth: \<^verbatim>\<open>is_argument_tuple\<close> answers as if the name were \<^verbatim>\<open>None\<close>, so that such an
  element after a named one makes it false, and \<^verbatim>\<open>unpack_args_from_tuple\<close> puts the
  element into the positional list and never uses the empty string as a key.
\<close>

theorem empty_name_is_unnamed:
  assumes "classify E x = Inr (Some els)"
  shows "is_argument_tuple E x
           = Inr (elements_in_order (map (\<lambda>e. (if fst e = Some [] then None else fst e, snd e)) els))
       \<and> ((\<exists>i j. i < j \<and> j < length els \<and> counts_as_named (els ! i) \<and> fst (els ! j) = Some [])
            \<longrightarrow> is_argument_tuple E x = Inr False)
       \<and> (\<exists>pos kw. unpack_args_from_tuple E x = Inr (pos, kw)
            \<and> pos = map snd (filter (\<lambda>e. fst e = None \<or> fst e = Some []) els)
            \<and> [] \<notin> fst ` set kw)"
proof -
  let ?f = "\<lambda>e::string option \<times> pyobj. (if fst e = Some [] then None else fst e, snd e)"
  have r: "is_argument_tuple E x = Inr (elements_in_order els)"
    using assms by (simp add: is_argument_tuple_classify)
  have "map counts_as_named els = map counts_as_named (map ?f els)"
    by (simp add: counts_as_named_def)
  then have a: "elements_in_order els = elements_in_order (map ?f els)"
    by (rule in_order_cong)
  have b: "(\<exists>i j. i < j \<and> j < length els \<and> counts_as_named (els ! i) \<and> fst (els ! j) = Some [])
            \<longrightarrow> \<not> elements_in_order els"
  proof
    assume "\<exists>i j. i < j \<and> j < length els \<and> counts_as_named (els ! i) \<and> fst (els ! j) = Some []"
    then obtain i j where h: "i < j" "j < length els" "counts_as_named (els ! i)" "fst (els ! j) = Some []"
      by blast
    from h(4) have "\<not> counts_as_named (els ! j)" by (simp add: counts_as_named_def)
    with h have "\<exists>i j. i < j \<and> j < length els \<and> counts_as_named (els ! i) \<and> \<not> counts_as_named (els ! j)"
      by blast
    then show "\<not> elements_in_order els"
      by (simp only: elements_in_order_iff named_before_unnamed) blast
  qed
  have u: "unpack_args_from_tuple E x = Inr (unpack_loop els [] [])"
    using assms by (simp add: unpack_classify)
  have unn: "(\<lambda>e::string option \<times> pyobj. \<not> counts_as_named e) = (\<lambda>e. fst e = None \<or> fst e = Some [])"
  proof
    fix e :: "string option \<times> pyobj"
    show "(\<not> counts_as_named e) = (fst e = None \<or> fst e = Some [])"
      by (cases "fst e") (auto simp: counts_as_named_def)
  qed
  have p: "fst (unpack_loop els [] []) = map snd (filter (\<lambda>e. fst e = None \<or> fst e = Some []) els)"
    by (simp add: unpack_loop_fst unn)
  have keys: "fst ` set (foldl (\<lambda>d e. AList.update (the (fst e)) (snd e) d) kw ns)
               = fst ` set kw \<union> (\<lambda>e. the (fst e)) ` set ns" for kw :: dict and ns :: elements
    by (induction ns arbitrary: kw) (auto simp: dom_update)
  have "[] \<notin> (\<lambda>e. the (fst e)) ` set (filter counts_as_named els)"
  proof
    assume "[] \<in> (\<lambda>e. the (fst e)) ` set (filter counts_as_named els)"
    then obtain e :: "string option \<times> pyobj" where "counts_as_named e" "[] = the (fst e)" by auto
    then show False by (cases "fst e") (auto simp: counts_as_named_def)
  qed
  then have k: "[] \<notin> fst ` set (snd (unpack_loop els [] []))"
    by (simp add: unpack_loop_snd keys)
  have "\<exists>pos kw. unpack_args_from_tuple E x = Inr (pos, kw)
            \<and> pos = map snd (filter (\<lambda>e. fst e = None \<or> fst e = Some []) els)
            \<and> [] \<notin> fst ` set kw"
    using u p k by (metis prod.collapse)
  with a b r show ?thesis by simp
qed

theorem empty_name_is_unnamed_witness:
  "is_argument_tuple sample_env
       (PyObj (Some 0) (AnonymousTuple [(Some ''a'', obj1), (Some [], obj2)])) = Inr False
   \<and> (\<exists>pos kw. unpack_args_from_tuple sample_env
          (PyObj (Some 0) (AnonymousTuple [(Some ''a'', obj1), (Some [], obj2)])) = Inr (pos, kw)
        \<and> pos = [obj2] \<and> [] \<notin> fst ` set kw)"
proof -
  let ?els = "[(Some ''a'', obj1), (Some [], obj2)]"
  have c: "classify sample_env (PyObj (Some 0) (AnonymousTuple ?els)) = Inr (Some ?els)"
    by (simp add: classify_def)
  have "0 < (1::nat) \<and> 1 < length ?els \<and> counts_as_named (?els ! 0) \<and> fst (?els ! 1) = Some []"
    by (simp add: counts_as_named_def)
  then have ex: "\<exists>i j. i < j \<and> j < length ?els \<and> counts_as_named (?els ! i) \<and> fst (?els ! j) = Some []"
    by blast
  from empty_name_is_unnamed[OF c]
  have a: "(\<exists>i j. i < j \<and> j < length ?els \<and> counts_as_named (?els ! i) \<and> fst (?els ! j) = Some [])
            \<longrightarrow> is_argument_tuple sample_env (PyObj (Some 0) (AnonymousTuple ?els)) = Inr False"
    and b: "\<exists>pos kw. unpack_args_from_tuple sample_env (PyObj (Some 0) (AnonymousTuple ?els)) = Inr (pos, kw)
            \<and> pos = map snd (filter (\<lambda>e. fst e = None \<or> fst e = Some []) ?els)
            \<and> [] \<notin> fst ` set kw"
    by blast+
  from a ex have "is_argument_tuple sample_env (PyObj (Some 0) (AnonymousTuple ?els)) = Inr False"
    by blast
  moreover from b have "\<exists>pos kw. unpack_args_from_tuple sample_env
          (PyObj (Some 0) (AnonymousTuple ?els)) = Inr (pos, kw)
        \<and> pos = [obj2] \<and> [] \<notin> fst ` set kw"
    by simp
  ultimately show ?thesis by blast
qed

text \<open>
  Claim C10 as stated says that the element after a named one does not make
  \<^verbatim>\<open>is_argument_tuple\<close> false. It does: the tuple is accepted without the element and
  rejected with it.
\<close>

theorem empty_name_after_named_counterexample:
  "is_argument_tuple sample_env
       (PyObj (Some 0) (AnonymousTuple [(Some ''a'', obj1), (Some [], obj2)])) = Inr False
   \<and> is_argument_tuple sample_env
       (PyObj (Some 0) (AnonymousTuple [(Some ''a'', obj1)])) = Inr True"
  by (simp add: is_argument_tuple_def elements_in_order_def)

section \<open>What \<^verbatim>\<open>unpack_args_from_tuple\<close> checks\<close>

text \<open>
  Claim C2, as amended. \<^verbatim>\<open>unpack_args_from_tuple\<close> does not test the order of the
  elements. On an argument that is not an anonymous tuple, and that \<^verbatim>\<open>to_type\<close> converts
  to \<^verbatim>\<open>None\<close> or to a type that is not a named tuple type, \<^verbatim>\<open>is_argument_tuple\<close> is
  false and \<^verbatim>\<open>unpack_args_from_tuple\<close> fails with the message of \<open>NotArgumentTuple\<close>. On
  an argument that is not an anonymous tuple and on which \<^verbatim>\<open>to_type\<close> raises, both
  functions raise the error of \<^verbatim>\<open>to_type\<close>. On an anonymous tuple, or an argument
  converted to a named tuple type, \<^verbatim>\<open>unpack_args_from_tuple\<close> returns the split, the
  values under no name or the empty name in order and the others by name, whatever the
  order of the elements, also where \<^verbatim>\<open>is_argument_tuple\<close> is false.
\<close>

theorem unpack_checks_shape_only:
  "(classify E x = Inr None \<longrightarrow>
      is_argument_tuple E x = Inr False
      \<and> unpack_args_from_tuple E x = Inl (TypeError NotArgumentTuple))
   \<and> (\<forall>e. (\<forall>els. val x \<noteq> AnonymousTuple els) \<and> to_type E x = Inl e \<longrightarrow>
        classify E x = Inl e
        \<and> is_argument_tuple E x = Inl e
        \<and> unpack_args_from_tuple E x = Inl e)
   \<and> (\<forall>e. classify E x = Inl e \<longrightarrow>
        to_type E x = Inl e
        \<and> is_argument_tuple E x = Inl e
        \<and> unpack_args_from_tuple E x = Inl e)
   \<and> (\<forall>els. classify E x = Inr (Some els) \<longrightarrow>
        is_argument_tuple E x = Inr (elements_in_order els)
        \<and> unpack_args_from_tuple E x
          = Inr (map snd (filter (\<lambda>e. \<not> counts_as_named e) els),
                 foldl (\<lambda>d e. AList.update (the (fst e)) (snd e) d) [] (filter counts_as_named els)))"
proof -
  have l: "unpack_loop els [] [] = (map snd (filter (\<lambda>e. \<not> counts_as_named e) els),
                 foldl (\<lambda>d e. AList.update (the (fst e)) (snd e) d) [] (filter counts_as_named els))" for els
    using unpack_loop_fst[of els "[]" "[]"] unpack_loop_snd[of els "[]" "[]"]
    by (cases "unpack_loop els [] []") simp
  have r: "classify E x = Inl e" if "\<forall>els. val x \<noteq> AnonymousTuple els" "to_type E x = Inl e" for e
    using that by (simp add: classify_def split: pyval.splits)
  have t: "to_type E x = Inl e" if "classify E x = Inl e" for e
    using that by (simp add: classify_def split: pyval.splits sum.splits option.splits)
  have a: "classify E x = Inr None \<longrightarrow>
      is_argument_tuple E x = Inr False
      \<and> unpack_args_from_tuple E x = Inl (TypeError NotArgumentTuple)"
    by (simp add: is_argument_tuple_classify unpack_classify)
  have b: "\<forall>e. (\<forall>els. val x \<noteq> AnonymousTuple els) \<and> to_type E x = Inl e \<longrightarrow>
        classify E x = Inl e
        \<and> is_argument_tuple E x = Inl e
        \<and> unpack_args_from_tuple E x = Inl e"
  proof (intro allI impI)
    fix e assume h: "(\<forall>els. val x \<noteq> AnonymousTuple els) \<and> to_type E x = Inl e"
    have k: "classify E x = Inl e" by (rule r[OF conjunct1[OF h] conjunct2[OF h]])
    show "classify E x = Inl e \<and> is_argument_tuple E x = Inl e
          \<and> unpack_args_from_tuple E x = Inl e"
      by (simp add: is_argument_tuple_classify unpack_classify k)
  qed
  have c: "\<forall>e. classify E x = Inl e \<longrightarrow>
        to_type E x = Inl e
        \<and> is_argument_tuple E x = Inl e
        \<and> unpack_args_from_tuple E x = Inl e"
  proof (intro allI impI)
    fix e assume k: "classify E x = Inl e"
    show "to_type E x = Inl e \<and> is_argument_tuple E x = Inl e
          \<and> unpack_args_from_tuple E x = Inl e"
      by (simp add: is_argument_tuple_classify unpack_classify k t[OF k])
  qed
  have d: "\<forall>els. classify E x = Inr (Some els) \<longrightarrow>
        is_argument_tuple E x = Inr (elements_in_order els)
        \<and> unpack_args_from_tuple E x
          = Inr (map snd (filter (\<lambda>e. \<not> counts_as_named e) els),
                 foldl (\<lambda>d e. AList.update (the (fst e)) (snd e) d) [] (filter counts_as_named els))"
    by (simp add: is_argument_tuple_classify unpack_classify l)
  from a b c d show ?thesis by (intro conjI)
qed

theorem unpack_checks_shape_only_witness:
  "is_argument_tuple sample_env (PyObj (Some 0) (TensorType ''int32'')) = Inr False
   \<and> unpack_args_from_tuple sample_env (PyObj (Some 0) (TensorType ''int32''))
       = Inl (TypeError NotArgumentTuple)
   \<and> is_argument_tuple sample_env obj1 = Inl (TypeError (ExternalTypeError ''to_type''))
   \<and> unpack_args_from_tuple sample_env obj1 = Inl (TypeError (ExternalTypeError ''to_type''))
   \<and> is_argument_tuple sample_env
       (PyObj (Some 0) (NamedTupleType [(None, obj2), (Some ''a'', obj1)])) = Inr True
   \<and> unpack_args_from_tuple sample_env
       (PyObj (Some 0) (NamedTupleType [(None, obj2), (Some ''a'', obj1)]))
       = Inr ([obj2], [(''a'', obj1)])"
proof -
  let ?t = "PyObj (Some 0) (TensorType ''int32'')"
  let ?els = "[(None, obj2), (Some ''a'', obj1)]"
  let ?n = "PyObj (Some 0) (NamedTupleType ?els)"
  let ?e = "TypeError (ExternalTypeError ''to_type'')"
  have c1: "classify sample_env ?t = Inr None"
    by (simp add: classify_def sample_env_def sample_to_type_def)
  have c2: "classify sample_env ?n = Inr (Some ?els)"
    by (simp add: classify_def sample_env_def sample_to_type_def)
  have c3: "(\<forall>els. val obj1 \<noteq> AnonymousTuple els) \<and> to_type sample_env obj1 = Inl ?e"
    by (simp add: obj1_def sample_env_def sample_to_type_def)
  have c4: "classify sample_env obj1 = Inl ?e"
    by (simp add: classify_def obj1_def sample_env_def sample_to_type_def)
  have o: "elements_in_order ?els"
    by (simp add: elements_in_order_def)
  from unpack_checks_shape_only[of sample_env ?t] c1
  have p1: "is_argument_tuple sample_env ?t = Inr False
            \<and> unpack_args_from_tuple sample_env ?t = Inl (TypeError NotArgumentTuple)"
    by simp
  from unpack_checks_shape_only[of sample_env obj1] c3 c4
  have p2: "is_argument_tuple sample_env obj1 = Inl ?e
            \<and> unpack_args_from_tuple sample_env obj1 = Inl ?e"
    by simp
  from unpack_checks_shape_only[of sample_env ?n] c2 o
  have p3: "is_argument_tuple sample_env ?n = Inr True
            \<and> unpack_args_from_tuple sample_env ?n = Inr ([obj2], [(''a'', obj1)])"
    by (simp add: counts_as_named_def)
  from p1 p2 p3 show ?thesis by (simp only: simp_thms)
qed

text \<open>
  Claim C2 as stated fails on a named element before an unnamed one: \<^verbatim>\<open>is_argument_tuple\<close>
  is false and the split is returned.
\<close>

theorem unpack_named_before_unnamed_counterexample:
  "is_argument_tuple sample_env
       (PyObj (Some 0) (AnonymousTuple [(Some ''a'', obj1), (None, obj2)])) = Inr False
   \<and> unpack_args_from_tuple sample_env
       (PyObj (Some 0) (AnonymousTuple [(Some ''a'', obj1), (None, obj2)]))
       = Inr ([obj2], [(''a'', obj1)])"
  by (simp add: is_argument_tuple_def elements_in_order_def unpack_args_from_tuple_def)

section \<open>Unpacking and packing again\<close>

lemma in_order_filters_aux:
  "list_all counts_as_named (dropWhile (\<lambda>e. \<not> counts_as_named e) els) \<Longrightarrow>
     filter (\<lambda>e. \<not> counts_as_named e) els = takeWhile (\<lambda>e. \<not> counts_as_named e) els
     \<and> filter counts_as_named els = dropWhile (\<lambda>e. \<not> counts_as_named e) els"
proof (induction els)
  case Nil
  show ?case by simp
next
  case (Cons e es)
  show ?case
  proof (cases "counts_as_named e")
    case True
    with Cons.prems have all: "\<forall>x\<in>set es. counts_as_named x" by (simp add: list_all_iff)
    then have "filter (\<lambda>e. \<not> counts_as_named e) es = []" by (simp add: filter_empty_conv)
    moreover from all have "filter counts_as_named es = es" by (simp add: filter_id_conv)
    ultimately show ?thesis using True by simp
  next
    case False
    with Cons.prems have "list_all counts_as_named (dropWhile (\<lambda>e. \<not> counts_as_named e) es)" by simp
    from Cons.IH[OF this] False show ?thesis by simp
  qed
qed

lemma in_order_filters:
  assumes "elements_in_order els"
  shows "filter (\<lambda>e. \<not> counts_as_named e) els = takeWhile (\<lambda>e. \<not> counts_as_named e) els"
    and "filter counts_as_named els = dropWhile (\<lambda>e. \<not> counts_as_named e) els"
  using in_order_filters_aux[of els] assms unfolding elements_in_order_iff by blast+

lemma named_keys_distinct:
  assumes "distinct (map fst ns)" "\<forall>e\<in>set ns. counts_as_named e"
  shows "distinct (map (\<lambda>e. the (fst e)) ns)"
proof -
  have inj: "inj_on fst (set ns)" and dist: "distinct ns"
    using assms(1) by (simp_all add: distinct_map)
  have "inj_on (\<lambda>e. the (fst e)) (set ns)"
  proof (rule inj_onI)
    fix a b assume h: "a \<in> set ns" "b \<in> set ns" "the (fst a) = the (fst b)"
    from h(1) assms(2) have na: "counts_as_named a" by blast
    from h(2) assms(2) have nb: "counts_as_named b" by blast
    from na obtain k where ka: "fst a = Some k" by (cases "fst a") (simp_all add: counts_as_named_def)
    from nb obtain l where kb: "fst b = Some l" by (cases "fst b") (simp_all add: counts_as_named_def)
    from h(3) ka kb have "fst a = fst b" by simp
    from inj_onD[OF inj this h(1) h(2)] show "a = b" .
  qed
  with dist show ?thesis by (simp add: distinct_map)
qed

text \<open>
  Claim C4, as amended. Let \<open>x\<close> satisfy \<^verbatim>\<open>is_argument_tuple\<close>, let no element of \<open>x\<close> have
  the empty string as its name, and let the named elements have pairwise distinct names.
  If the runtime enumerates the dict of the named parts in the order of their insertion,
  then unpacking \<open>x\<close> and packing the two parts again gives an anonymous tuple with
  exactly the elements of \<open>x\<close>, names and order included.
\<close>

theorem unpack_then_pack_roundtrip:
  assumes "classify E x = Inr (Some els)"
      and "is_argument_tuple E x = Inr True"
      and "\<forall>e\<in>set els. fst e \<noteq> Some []"
      and "distinct (map fst (filter counts_as_named els))"
      and "unpack_args_from_tuple E x = Inr (pos, kw)"
      and "iteritems E kw = kw"
  shows "unpack_then_pack E x = Inr (pack_args_into_anonymous_tuple E pos kw)
       \<and> val (pack_args_into_anonymous_tuple E pos kw) = AnonymousTuple els"
proof -
  let ?us = "takeWhile (\<lambda>e. \<not> counts_as_named e) els"
  let ?ns = "dropWhile (\<lambda>e. \<not> counts_as_named e) els"
  have ord: "elements_in_order els"
    using assms(1,2) by (simp add: is_argument_tuple_classify)
  have ns: "\<forall>e\<in>set ?ns. counts_as_named e"
    using ord by (simp only: elements_in_order_iff list_all_iff)
  have loop: "unpack_loop els [] [] = (pos, kw)"
    using assms(1,5) by (simp add: unpack_classify)
  have pos: "pos = map snd ?us"
  proof -
    have "pos = fst (unpack_loop els [] [])" by (simp only: loop fst_conv)
    also have "\<dots> = map snd (filter (\<lambda>e. \<not> counts_as_named e) els)"
      by (simp only: unpack_loop_fst append_Nil)
    also have "\<dots> = map snd ?us" by (simp only: in_order_filters(1)[OF ord])
    finally show ?thesis .
  qed
  have "distinct (map fst ?ns)"
    using assms(4) by (simp only: in_order_filters(2)[OF ord])
  then have dist: "distinct (map (\<lambda>e. the (fst e)) ?ns)"
    using ns by (rule named_keys_distinct)
  have kw: "kw = map (\<lambda>e. (the (fst e), snd e)) ?ns"
  proof -
    have "kw = snd (unpack_loop els [] [])" by (simp only: loop snd_conv)
    also have "\<dots> = foldl (\<lambda>d e. AList.update (the (fst e)) (snd e) d) [] ?ns"
      by (simp only: unpack_loop_snd in_order_filters(2)[OF ord])
    also have "\<dots> = [] @ map (\<lambda>e. (the (fst e), snd e)) ?ns"
      by (rule foldl_update_distinct) (simp add: dist)
    finally show ?thesis by simp
  qed
  have a: "map (\<lambda>a. (None, a)) (map snd ?us) = ?us"
  proof -
    have "(None, snd e) = e" if "e \<in> set ?us" for e
    proof -
      from that have "\<not> counts_as_named e" "e \<in> set els" by (auto dest: set_takeWhileD)
      with assms(3) have "fst e = None" by (cases "fst e") (auto simp: counts_as_named_def)
      then show ?thesis by (cases e) simp
    qed
    then have "map ((\<lambda>a. (None, a)) \<circ> snd) ?us = ?us" by (intro map_idI) simp
    then show ?thesis by (simp only: map_map)
  qed
  have b: "map (\<lambda>(k, v). (Some k, v)) (map (\<lambda>e. (the (fst e), snd e)) ?ns) = ?ns"
  proof -
    have "(Some (the (fst e)), snd e) = e" if "e \<in> set ?ns" for e
    proof -
      from that ns have "counts_as_named e" by blast
      then obtain k where "fst e = Some k" by (cases "fst e") (auto simp: counts_as_named_def)
      then show ?thesis by (cases e) simp
    qed
    then have "map ((\<lambda>(k, v). (Some k, v)) \<circ> (\<lambda>e. (the (fst e), snd e))) ?ns = ?ns"
      by (intro map_idI) simp
    then show ?thesis by (simp only: map_map)
  qed
  have "packed_elements E pos kw
          = map (\<lambda>a. (None, a)) pos @ map (\<lambda>(k, v). (Some k, v)) kw"
    by (simp only: packed_elements_def assms(6))
  also have "\<dots> = map (\<lambda>a. (None, a)) (map snd ?us)
                  @ map (\<lambda>(k, v). (Some k, v)) (map (\<lambda>e. (the (fst e), snd e)) ?ns)"
    using pos kw by blast
  also have "\<dots> = ?us @ ?ns" by (simp only: a b)
  also have "\<dots> = els" by (rule takeWhile_dropWhile_id)
  finally have "val (pack_args_into_anonymous_tuple E pos kw) = AnonymousTuple els"
    by (simp add: pack_args_into_anonymous_tuple_def)
  then show ?thesis using assms(5) by (simp add: unpack_then_pack_def)
qed

theorem unpack_then_pack_roundtrip_witness:
  "unpack_then_pack sample_env
     (PyObj (Some 0) (AnonymousTuple [(None, obj1), (Some ''b'', obj2), (Some ''a'', obj1)]))
   = Inr (PyObj None (AnonymousTuple [(None, obj1), (Some ''b'', obj2), (Some ''a'', obj1)]))"
proof -
  let ?els = "[(None, obj1), (Some ''b'', obj2), (Some ''a'', obj1)]"
  let ?x = "PyObj (Some 0) (AnonymousTuple ?els)"
  have c: "classify sample_env ?x = Inr (Some ?els)" by (simp add: classify_def)
  have i: "is_argument_tuple sample_env ?x = Inr True"
    by (simp add: is_argument_tuple_def elements_in_order_def)
  have n: "\<forall>e\<in>set ?els. fst e \<noteq> Some []" by simp
  have d: "distinct (map fst (filter counts_as_named ?els))" by (simp add: counts_as_named_def)
  have u: "unpack_args_from_tuple sample_env ?x = Inr ([obj1], [(''b'', obj2), (''a'', obj1)])"
    by (simp add: unpack_args_from_tuple_def)
  have o: "iteritems sample_env [(''b'', obj2), (''a'', obj1)] = [(''b'', obj2), (''a'', obj1)]"
    by (simp add: sample_env_def)
  from unpack_then_pack_roundtrip[OF c i n d u o] show ?thesis
    by (simp add: pack_args_into_anonymous_tuple_def)
qed

text \<open>
  Claim C4 as stated fails in three ways, each on a tuple that satisfies
  \<^verbatim>\<open>is_argument_tuple\<close>: a name that is the empty string comes back as \<^verbatim>\<open>None\<close>; of two
  elements with the same name only the second comes back; and when the runtime
  enumerates a dict in another order than that of insertion (here the reverse), the
  named elements come back in that order.
\<close>

theorem unpack_then_pack_counterexample:
  "is_argument_tuple sample_env (PyObj (Some 0) (AnonymousTuple [(Some [], obj1)])) = Inr True
   \<and> unpack_then_pack sample_env (PyObj (Some 0) (AnonymousTuple [(Some [], obj1)]))
       = Inr (PyObj None (AnonymousTuple [(None, obj1)]))
   \<and> is_argument_tuple sample_env
       (PyObj (Some 0) (AnonymousTuple [(Some ''a'', obj1), (Some ''a'', obj2)])) = Inr True
   \<and> unpack_then_pack sample_env
       (PyObj (Some 0) (AnonymousTuple [(Some ''a'', obj1), (Some ''a'', obj2)]))
       = Inr (PyObj None (AnonymousTuple [(Some ''a'', obj2)]))
   \<and> is_argument_tuple (sample_env\<lparr>iteritems := rev\<rparr>)
       (PyObj (Some 0) (AnonymousTuple [(Some ''b'', obj1), (Some ''a'', obj2)])) = Inr True
   \<and> unpack_then_pack (sample_env\<lparr>iteritems := rev\<rparr>)
       (PyObj (Some 0) (AnonymousTuple [(Some ''b'', obj1), (Some ''a'', obj2)]))
       = Inr (PyObj None (AnonymousTuple [(Some ''a'', obj2), (Some ''b'', obj1)]))"
  by (simp add: is_argument_tuple_def elements_in_order_def unpack_then_pack_def
        unpack_args_from_tuple_def pack_args_into_anonymous_tuple_def packed_elements_def
        sample_env_def)

section \<open>The cache of \<^verbatim>\<open>PolymorphicFunction\<close>\<close>

lemma call_miss:
  assumes "inferred_type E c = Inr t"
      and "case map_of (concrete_function_cache self) (repr E t) of None \<Rightarrow> True | Some g \<Rightarrow> \<not> truth g"
      and "concrete_function_factory self t = Inr f"
  shows "PolymorphicFunction_call E self (fst c) (snd c)
           = (body f (fst c) (snd c),
              self\<lparr>concrete_function_cache :=
                     AList.update (repr E t) f (concrete_function_cache self)\<rparr>,
              [t])"
  using assms
  by (auto simp: PolymorphicFunction_call_def inferred_type_def Let_def split: option.splits)

lemma call_hit:
  assumes "inferred_type E c = Inr t"
      and "map_of (concrete_function_cache self) (repr E t) = Some g"
      and "truth g"
  shows "PolymorphicFunction_call E self (fst c) (snd c) = (body g (fst c) (snd c), self, [])"
  using assms
  by (simp add: PolymorphicFunction_call_def inferred_type_def Let_def split: if_splits)

lemma new_types_set:
  "distinct seen \<Longrightarrow> distinct (seen @ new_types seen ts)
     \<and> set (seen @ new_types seen ts) = set seen \<union> set ts"
proof (induction ts arbitrary: seen)
  case Nil
  then show ?case by simp
next
  case (Cons t ts)
  show ?case
  proof (cases "t \<in> set seen")
    case True
    with Cons.IH[OF Cons.prems] show ?thesis by auto
  next
    case False
    with Cons.prems have "distinct (seen @ [t])" by simp
    from Cons.IH[OF this] False show ?thesis by auto
  qed
qed

lemma new_types_card: "length (new_types [] ts) = card (set ts)"
proof -
  have "distinct (new_types [] ts) \<and> set (new_types [] ts) = set ts"
    using new_types_set[of "[]" ts] by simp
  then show ?thesis by (metis distinct_card)
qed

lemma cache_of_lookup:
  assumes "inj_on (repr E) (insert t (set seen))"
  shows "map_of (cache_of E F seen) (repr E t) = (if t \<in> set seen then Some (F t) else None)"
  using assms
proof (induction seen)
  case Nil
  then show ?case by (simp add: cache_of_def)
next
  case (Cons s seen)
  from Cons.prems have inj: "inj_on (repr E) (insert t (set seen))"
    by (rule inj_on_subset) auto
  from Cons.prems have eq: "repr E s = repr E t \<longleftrightarrow> s = t"
    by (auto simp: inj_on_def)
  from Cons.IH[OF inj] eq show ?case by (auto simp: cache_of_def)
qed

lemma run_truthy:
  assumes "map (inferred_type E) cs = map Inr ts"
      and "\<forall>t\<in>set ts. factory t = Inr (F t) \<and> truth (F t)"
      and "\<forall>t\<in>set seen. truth (F t)"
      and "inj_on (repr E) (set seen \<union> set ts)"
  shows "run_calls E \<lparr>concrete_function_factory = factory,
                      concrete_function_cache = cache_of E F seen\<rparr> cs
           = (map (\<lambda>(c, t). body (F t) (fst c) (snd c)) (zip cs ts),
              \<lparr>concrete_function_factory = factory,
               concrete_function_cache = cache_of E F (seen @ new_types seen ts)\<rparr>,
              new_types seen ts)"
  using assms
proof (induction cs arbitrary: ts seen)
  case Nil
  then show ?case by simp
next
  case (Cons c cs)
  from Cons.prems(1) obtain t ts' where ts: "ts = t # ts'"
    and ct: "inferred_type E c = Inr t" and rest: "map (inferred_type E) cs = map Inr ts'"
    by (cases ts) auto
  let ?self = "\<lparr>concrete_function_factory = factory, concrete_function_cache = cache_of E F seen\<rparr>"
  have inj1: "inj_on (repr E) (insert t (set seen))"
    using Cons.prems(4) unfolding ts by (rule inj_on_subset) auto
  have look: "map_of (cache_of E F seen) (repr E t) = (if t \<in> set seen then Some (F t) else None)"
    by (rule cache_of_lookup[OF inj1])
  have F: "factory t = Inr (F t)" "truth (F t)" using Cons.prems(2) ts by auto
  have all': "\<forall>t\<in>set ts'. factory t = Inr (F t) \<and> truth (F t)" using Cons.prems(2) ts by auto
  show ?case
  proof (cases "t \<in> set seen")
    case True
    have step: "PolymorphicFunction_call E ?self (fst c) (snd c) = (body (F t) (fst c) (snd c), ?self, [])"
      by (rule call_hit[OF ct _ F(2)]) (simp add: look True)
    have inj: "inj_on (repr E) (set seen \<union> set ts')"
      using Cons.prems(4) unfolding ts by (rule inj_on_subset) auto
    from Cons.IH[OF rest all' Cons.prems(3) inj] step True show ?thesis
      by (simp add: ts)
  next
    case False
    have miss: "case map_of (concrete_function_cache ?self) (repr E t) of None \<Rightarrow> True | Some g \<Rightarrow> \<not> truth g"
      by (simp add: look False)
    have fresh: "repr E t \<notin> fst ` set (cache_of E F seen)"
      using look False by (simp add: map_of_eq_None_iff)
    have upd: "AList.update (repr E t) (F t) (cache_of E F seen) = cache_of E F (seen @ [t])"
      using update_fresh[OF fresh] by (simp add: cache_of_def)
    have "PolymorphicFunction_call E ?self (fst c) (snd c)
            = (body (F t) (fst c) (snd c),
               ?self\<lparr>concrete_function_cache :=
                     AList.update (repr E t) (F t) (concrete_function_cache ?self)\<rparr>, [t])"
      by (rule call_miss[OF ct miss]) (simp add: F)
    then have step: "PolymorphicFunction_call E ?self (fst c) (snd c)
            = (body (F t) (fst c) (snd c),
               \<lparr>concrete_function_factory = factory,
                concrete_function_cache = cache_of E F (seen @ [t])\<rparr>, [t])"
      by (simp add: upd)
    have seen': "\<forall>u\<in>set (seen @ [t]). truth (F u)" using Cons.prems(3) F(2) by simp
    have inj: "inj_on (repr E) (set (seen @ [t]) \<union> set ts')"
      using Cons.prems(4) unfolding ts by (rule inj_on_subset) auto
    from Cons.IH[OF rest all' seen' inj] step False show ?thesis
      by (simp add: ts)
  qed
qed

lemma call_keeps_entry:
  assumes m: "map_of (concrete_function_cache self) (repr E t) = Some f"
      and fac: "concrete_function_factory self t = Inr f"
      and sep: "\<forall>t'. inferred_type E c = Inr t' \<and> repr E t' = repr E t \<longrightarrow> t' = t"
  shows "map_of (concrete_function_cache (object_after_call E self c)) (repr E t) = Some f
       \<and> concrete_function_factory (object_after_call E self c) = concrete_function_factory self"
proof (cases "inferred_type E c")
  case (Inl e)
  then show ?thesis
    using m
    by (simp add: object_after_call_def PolymorphicFunction_call_def inferred_type_def Let_def
          split: if_splits)
next
  case (Inr t')
  then have nself: "\<not> dict_contains (snd c) ''self''"
    and it: "infer_type E (pack_args_into_anonymous_tuple E (fst c) (snd c)) = Inr t'"
    by (simp_all add: inferred_type_def split: if_splits)
  show ?thesis
  proof (cases "repr E t' = repr E t")
    case True
    with sep Inr have "t' = t" by blast
    then show ?thesis
      using m fac nself it
      by (simp add: object_after_call_def PolymorphicFunction_call_def Let_def update_conv'
            split: sum.splits option.splits)
  next
    case False
    then show ?thesis
      using m nself it
      by (simp add: object_after_call_def PolymorphicFunction_call_def Let_def update_conv'
            split: sum.splits option.splits)
  qed
qed

lemma object_after_calls_Cons:
  "object_after_calls E self (c # cs) = object_after_calls E (object_after_call E self c) cs"
  by (simp add: object_after_calls_def object_after_call_def split: prod.splits)

lemma run_keeps_entry:
  assumes "map_of (concrete_function_cache self) (repr E t) = Some f"
      and "concrete_function_factory self t = Inr f"
      and "\<forall>c\<in>set cs. \<forall>t'. inferred_type E c = Inr t' \<and> repr E t' = repr E t \<longrightarrow> t' = t"
  shows "map_of (concrete_function_cache (object_after_calls E self cs)) (repr E t) = Some f
       \<and> concrete_function_factory (object_after_calls E self cs) = concrete_function_factory self"
  using assms
proof (induction cs arbitrary: self)
  case Nil
  then show ?case by (simp add: object_after_calls_def)
next
  case (Cons c cs)
  from Cons.prems(3)
  have sep1: "\<forall>t'. inferred_type E c = Inr t' \<and> repr E t' = repr E t \<longrightarrow> t' = t"
    and sep2: "\<forall>c\<in>set cs. \<forall>t'. inferred_type E c = Inr t' \<and> repr E t' = repr E t \<longrightarrow> t' = t"
    by simp_all
  let ?self1 = "object_after_call E self c"
  from call_keeps_entry[OF Cons.prems(1) Cons.prems(2) sep1]
  have m1: "map_of (concrete_function_cache ?self1) (repr E t) = Some f"
    and f1: "concrete_function_factory ?self1 = concrete_function_factory self"
    by simp_all
  from f1 Cons.prems(2) have fac1: "concrete_function_factory ?self1 t = Inr f" by simp
  from Cons.IH[OF m1 fac1 sep2] f1 show ?case
    by (simp add: object_after_calls_Cons)
qed

lemma call_again:
  assumes "inferred_type E c = Inr t"
      and "case map_of (concrete_function_cache self) (repr E t) of None \<Rightarrow> True | Some g \<Rightarrow> \<not> truth g"
      and "concrete_function_factory self t = Inr f"
  shows "PolymorphicFunction_call E self (fst c) (snd c)
           = (body f (fst c) (snd c), object_after_call E self c, [t])
         \<and> map_of (concrete_function_cache (object_after_call E self c)) (repr E t) = Some f
         \<and> concrete_function_factory (object_after_call E self c) = concrete_function_factory self"
  using call_miss[OF assms] by (simp add: object_after_call_def update_conv')

text \<open>
  Claim C8. Let the factory of an object, whatever its cache holds, return for a type
  \<open>t\<close> an object \<open>f\<close> whose truth value is false. A call of inferred type \<open>t\<close> that
  invokes the factory stores \<open>f\<close> in the cache under the key of \<open>t\<close>. After that, and
  after any further calls on the object (calls of the same type, calls of other types
  whose key is not the key of \<open>t\<close>, calls that raise), a call of inferred type \<open>t\<close> is a
  miss again: it invokes the factory with \<open>t\<close> once more, calls \<open>f\<close>, and leaves \<open>f\<close>
  in the cache under the key of \<open>t\<close>.
\<close>

theorem falsy_concrete_function_never_hits:
  assumes fac: "concrete_function_factory self t = Inr f"
      and nf: "\<not> truth f"
      and first: "inferred_type E c0 = Inr t"
      and miss: "case map_of (concrete_function_cache self) (repr E t) of
                   None \<Rightarrow> True | Some g \<Rightarrow> \<not> truth g"
      and sep: "\<forall>c'\<in>set cs. \<forall>t'. inferred_type E c' = Inr t' \<and> repr E t' = repr E t \<longrightarrow> t' = t"
      and later: "inferred_type E c = Inr t"
  shows "PolymorphicFunction_call E self (fst c0) (snd c0)
           = (body f (fst c0) (snd c0), object_after_call E self c0, [t])
       \<and> map_of (concrete_function_cache (object_after_call E self c0)) (repr E t) = Some f
       \<and> PolymorphicFunction_call E (object_after_calls E (object_after_call E self c0) cs)
             (fst c) (snd c)
           = (body f (fst c) (snd c),
              object_after_call E (object_after_calls E (object_after_call E self c0) cs) c,
              [t])
       \<and> map_of (concrete_function_cache
             (object_after_call E (object_after_calls E (object_after_call E self c0) cs) c))
             (repr E t) = Some f"
proof -
  let ?self0 = "object_after_call E self c0"
  let ?self1 = "object_after_calls E ?self0 cs"
  from call_again[OF first miss fac]
  have s0: "PolymorphicFunction_call E self (fst c0) (snd c0)
              = (body f (fst c0) (snd c0), ?self0, [t])"
    and m0: "map_of (concrete_function_cache ?self0) (repr E t) = Some f"
    and f0: "concrete_function_factory ?self0 = concrete_function_factory self"
    by simp_all
  from f0 fac have fac0: "concrete_function_factory ?self0 t = Inr f" by simp
  from run_keeps_entry[OF m0 fac0 sep]
  have m1: "map_of (concrete_function_cache ?self1) (repr E t) = Some f"
    and f1: "concrete_function_factory ?self1 = concrete_function_factory ?self0"
    by simp_all
  from f1 fac0 have fac1: "concrete_function_factory ?self1 t = Inr f" by simp
  from m1 nf
  have miss1: "case map_of (concrete_function_cache ?self1) (repr E t) of
                 None \<Rightarrow> True | Some g \<Rightarrow> \<not> truth g"
    by simp
  from call_again[OF later miss1 fac1]
  have s2: "PolymorphicFunction_call E ?self1 (fst c) (snd c)
              = (body f (fst c) (snd c), object_after_call E ?self1 c, [t])"
    and m2: "map_of (concrete_function_cache (object_after_call E ?self1 c)) (repr E t) = Some f"
    by simp_all
  from s0 m0 s2 m2 show ?thesis by (intro conjI)
qed

theorem falsy_concrete_function_never_hits_witness:
  "snd (snd (PolymorphicFunction_call sample_env (PolymorphicFunction_init falsy_for_int)
               [obj1] []))
     = [int_call_type]
   \<and> PolymorphicFunction_call sample_env
        (object_after_calls sample_env
           (object_after_call sample_env (PolymorphicFunction_init falsy_for_int) ([obj1], []))
           [([obj3], []), ([obj2], []), ([obj1], [(''self'', obj2)])])
        [obj1] []
     = (Inr (PyObj None PyNone),
        object_after_call sample_env
          (object_after_calls sample_env
             (object_after_call sample_env (PolymorphicFunction_init falsy_for_int) ([obj1], []))
             [([obj3], []), ([obj2], []), ([obj1], [(''self'', obj2)])])
          ([obj1], []),
        [int_call_type])
   \<and> map_of (concrete_function_cache
        (object_after_call sample_env
          (object_after_calls sample_env
             (object_after_call sample_env (PolymorphicFunction_init falsy_for_int) ([obj1], []))
             [([obj3], []), ([obj2], []), ([obj1], [(''self'', obj2)])])
          ([obj1], [])))
        (repr sample_env int_call_type)
     = Some falsy_fn"
proof -
  let ?self = "PolymorphicFunction_init falsy_for_int"
  let ?c0 = "([obj1], []) :: pyobj list \<times> dict"
  let ?cs = "[([obj3], []), ([obj2], []), ([obj1], [(''self'', obj2)])] :: (pyobj list \<times> dict) list"
  have fac: "concrete_function_factory ?self int_call_type = Inr falsy_fn"
    by (simp add: PolymorphicFunction_init_def falsy_for_int_def)
  have nf: "\<not> truth falsy_fn" by (simp add: falsy_fn_def)
  have first: "inferred_type sample_env ?c0 = Inr int_call_type"
    by (simp add: inferred_type_def pack_args_into_anonymous_tuple_def packed_elements_def
          sample_env_def sample_infer_type_def sample_scalar_type_def obj1_def int_call_type_def)
  have miss: "case map_of (concrete_function_cache ?self) (repr sample_env int_call_type) of
                None \<Rightarrow> True | Some g \<Rightarrow> \<not> truth g"
    by (simp add: PolymorphicFunction_init_def)
  have i3: "inferred_type sample_env ([obj3], [])
              = Inr (PyObj None (NamedTupleType [(None, PyObj None (TensorType ''string''))]))"
    by (simp add: inferred_type_def pack_args_into_anonymous_tuple_def packed_elements_def
          sample_env_def sample_infer_type_def sample_scalar_type_def obj3_def)
  have i2: "inferred_type sample_env ([obj2], []) = Inr int_call_type"
    by (simp add: inferred_type_def pack_args_into_anonymous_tuple_def packed_elements_def
          sample_env_def sample_infer_type_def sample_scalar_type_def obj2_def int_call_type_def)
  have i1: "inferred_type sample_env ([obj1], [(''self'', obj2)])
              = Inl (TypeError (MultipleValuesForArgument ''self''))"
    by (simp add: inferred_type_def dict_contains_def)
  have k3: "repr sample_env (PyObj None (NamedTupleType [(None, PyObj None (TensorType ''string''))]))
              \<noteq> repr sample_env int_call_type"
    by (simp add: sample_env_def sample_repr_def int_call_type_def)
  have sep: "\<forall>c'\<in>set ?cs. \<forall>t'. inferred_type sample_env c' = Inr t'
               \<and> repr sample_env t' = repr sample_env int_call_type \<longrightarrow> t' = int_call_type"
    using i3 i2 i1 k3 by auto
  have b: "body falsy_fn [obj1] [] = Inr (PyObj None PyNone)"
    by (simp add: falsy_fn_def)
  from falsy_concrete_function_never_hits[OF fac nf first miss sep first]
  show ?thesis by (simp add: b)
qed

text \<open>
  Claim C5, as amended. Let the factory return, for each type inferred in a sequence of
  calls, a concrete function whose truth value is true, and let \<^verbatim>\<open>repr\<close> give different
  keys to different types among them. Then, starting from a new \<^verbatim>\<open>PolymorphicFunction\<close>,
  a call whose inferred type was not seen before invokes the factory exactly once and
  caches the result, a call whose inferred type was seen invokes the cached function and
  not the factory, and the factory is invoked as many times as there are different types:
  twice for two calls of different types, once for two calls of the same type.
\<close>

theorem polymorphic_function_caches_by_type:
  assumes "map (inferred_type E) cs = map Inr ts"
      and "\<forall>t\<in>set ts. factory t = Inr (F t) \<and> truth (F t)"
      and "inj_on (repr E) (set ts)"
  shows "run_calls E (PolymorphicFunction_init factory) cs
           = (map (\<lambda>(c, t). body (F t) (fst c) (snd c)) (zip cs ts),
              \<lparr>concrete_function_factory = factory,
               concrete_function_cache = cache_of E F (new_types [] ts)\<rparr>,
              new_types [] ts)
       \<and> length (new_types [] ts) = card (set ts)"
proof -
  have a: "\<forall>t\<in>set []. truth (F t)" by simp
  have b: "inj_on (repr E) (set [] \<union> set ts)" using assms(3) by simp
  have "PolymorphicFunction_init factory
          = \<lparr>concrete_function_factory = factory, concrete_function_cache = cache_of E F []\<rparr>"
    by (simp add: PolymorphicFunction_init_def cache_of_def)
  with run_truthy[OF assms(1) assms(2) a b] new_types_card[of ts] show ?thesis by simp
qed

theorem polymorphic_function_caches_by_type_witness:
  "snd (snd (run_calls sample_env (PolymorphicFunction_init (\<lambda>t. Inr (sample_fn t)))
               [([obj1], []), ([obj3], []), ([obj2], [])]))
     = [PyObj None (NamedTupleType [(None, PyObj None (TensorType ''int32''))]),
        PyObj None (NamedTupleType [(None, PyObj None (TensorType ''string''))])]
   \<and> snd (snd (run_calls sample_env (PolymorphicFunction_init (\<lambda>t. Inr (sample_fn t)))
               [([obj1], []), ([obj2], [])]))
     = [PyObj None (NamedTupleType [(None, PyObj None (TensorType ''int32''))])]"
proof -
  let ?ti = "PyObj None (NamedTupleType [(None, PyObj None (TensorType ''int32''))])"
  let ?ts = "PyObj None (NamedTupleType [(None, PyObj None (TensorType ''string''))])"
  let ?cs = "[([obj1], []), ([obj3], []), ([obj2], [])] :: (pyobj list \<times> dict) list"
  let ?cs2 = "[([obj1], []), ([obj2], [])] :: (pyobj list \<times> dict) list"
  let ?f = "\<lambda>t. (Inr (sample_fn t) :: error + concrete_fn)"
  have a: "map (inferred_type sample_env) ?cs = map Inr [?ti, ?ts, ?ti]"
    by (simp add: inferred_type_def pack_args_into_anonymous_tuple_def packed_elements_def
          sample_env_def sample_infer_type_def sample_scalar_type_def obj1_def obj2_def obj3_def)
  have a2: "map (inferred_type sample_env) ?cs2 = map Inr [?ti, ?ti]"
    by (simp add: inferred_type_def pack_args_into_anonymous_tuple_def packed_elements_def
          sample_env_def sample_infer_type_def sample_scalar_type_def obj1_def obj2_def)
  have b: "\<forall>t\<in>set [?ti, ?ts, ?ti]. ?f t = Inr (sample_fn t) \<and> truth (sample_fn t)"
    by (simp add: sample_fn_def)
  have b2: "\<forall>t\<in>set [?ti, ?ti]. ?f t = Inr (sample_fn t) \<and> truth (sample_fn t)"
    by (simp add: sample_fn_def)
  have c: "inj_on (repr sample_env) (set [?ti, ?ts, ?ti])"
    by (auto simp: inj_on_def sample_env_def sample_repr_def)
  have c2: "inj_on (repr sample_env) (set [?ti, ?ti])"
    by simp
  from polymorphic_function_caches_by_type[OF a b c]
       polymorphic_function_caches_by_type[OF a2 b2 c2]
  show ?thesis by simp
qed

text \<open>
  Claim C5 as stated fails for a factory that returns an object whose truth value is
  false (two calls of the same type, two invocations), and for a \<^verbatim>\<open>repr\<close> that gives two
  types the same key (two calls of different types, one invocation).
\<close>

theorem polymorphic_function_counterexample:
  "snd (snd (run_calls sample_env (PolymorphicFunction_init (\<lambda>t. Inr falsy_fn))
               [([obj1], []), ([obj1], [])]))
     = [PyObj None (NamedTupleType [(None, PyObj None (TensorType ''int32''))]),
        PyObj None (NamedTupleType [(None, PyObj None (TensorType ''int32''))])]
   \<and> snd (snd (run_calls (sample_env\<lparr>repr := (\<lambda>t. ''T'')\<rparr>)
               (PolymorphicFunction_init (\<lambda>t. Inr (sample_fn t)))
               [([obj1], []), ([obj3], [])]))
     = [PyObj None (NamedTupleType [(None, PyObj None (TensorType ''int32''))])]"
  by (simp add: PolymorphicFunction_call_def PolymorphicFunction_init_def
        pack_args_into_anonymous_tuple_def packed_elements_def
        sample_env_def sample_infer_type_def sample_scalar_type_def sample_repr_def
        obj1_def obj3_def falsy_fn_def sample_fn_def)

section \<open>The decision of \<^verbatim>\<open>wrap_as_zero_or_one_arg_callable\<close>\<close>

lemma unpack_required_eq:
  "is_argspec_compatible_with_types E s [pt] [] = Inr single \<Longrightarrow>
     unpack_required E s pt = Inr (\<not> single)"
  by (simp add: unpack_required_def)

lemma unpack_possible_eq:
  assumes "is_argument_tuple E pt = Inr shaped"
      and "shaped \<longrightarrow> unpack_args_from_tuple E pt = Inr (ats, kts)
                     \<and> is_argspec_compatible_with_types E s ats kts = Inr multi"
  shows "unpack_possible E s pt
           = Inr (shaped \<and> multi, if shaped then Some (ats, kts) else None)"
  using assms by (cases shaped) (simp_all add: unpack_possible_def)

lemma wrap_resolved:
  assumes "get_argspec func = Inr s"
      and "to_type E parameter_type0 = Inr (Some pt)"
      and "is_argspec_compatible_with_types E s [pt] [] = Inr single"
      and "is_argument_tuple E pt = Inr shaped"
      and "shaped \<longrightarrow> unpack_args_from_tuple E pt = Inr (ats, kts)
                     \<and> is_argspec_compatible_with_types E s ats kts = Inr multi"
  shows "wrap_as_zero_or_one_arg_callable E func parameter_type0 (unpack_of preference)
           = (case resolution_table preference (\<not> single) (shaped \<and> multi) of
                Some m \<Rightarrow> Inl (TypeError m)
              | None \<Rightarrow>
                  (if effective_unpack preference (shaped \<and> multi) then
                     Inr (UnpackAndCall func ats kts)
                   else Inr (CallSingle func pt)))"
  using assms(1,2) unpack_required_eq[OF assms(3)] unpack_possible_eq[OF assms(4,5)]
  by (cases preference; cases single; cases shaped; cases multi)
     (simp_all add: wrap_as_zero_or_one_arg_callable_def effective_unpack_def)

lemma sample_single_xy:
  "is_argspec_compatible_with_types sample_env
     \<lparr>args = [''x'', ''y''], varargs = None, keywords_name = None, defaults = None\<rparr>
     [pair_type] [] = Inr False"
  by (simp add: is_argspec_compatible_with_types_def get_callargs_for_argspec_def
        num_defaults_def dict_contains_def)

lemma sample_shaped_xy: "is_argument_tuple sample_env pair_type = Inr True"
  by (simp add: is_argument_tuple_def elements_in_order_def pair_type_def sample_env_def
        sample_to_type_def)

lemma sample_multi_xy:
  "True \<longrightarrow> unpack_args_from_tuple sample_env pair_type = Inr ([int32, int32], [])
     \<and> is_argspec_compatible_with_types sample_env
         \<lparr>args = [''x'', ''y''], varargs = None, keywords_name = None, defaults = None\<rparr>
         [int32, int32] [] = Inr True"
  by (simp add: unpack_args_from_tuple_def pair_type_def sample_env_def sample_to_type_def
        is_argspec_compatible_with_types_def get_callargs_for_argspec_def num_defaults_def
        dict_contains_def dict_of_items_def)

lemma sample_single_x:
  "is_argspec_compatible_with_types sample_env
     \<lparr>args = [''x''], varargs = None, keywords_name = None, defaults = None\<rparr>
     [single_type] [] = Inr True"
  by (simp add: is_argspec_compatible_with_types_def get_callargs_for_argspec_def
        num_defaults_def dict_contains_def dict_of_items_def sample_env_def)

lemma sample_shaped_x: "is_argument_tuple sample_env single_type = Inr True"
  by (simp add: is_argument_tuple_def elements_in_order_def single_type_def sample_env_def
        sample_to_type_def)

lemma sample_multi_x:
  "True \<longrightarrow> unpack_args_from_tuple sample_env single_type = Inr ([int32], [])
     \<and> is_argspec_compatible_with_types sample_env
         \<lparr>args = [''x''], varargs = None, keywords_name = None, defaults = None\<rparr>
         [int32] [] = Inr True"
  by (simp add: unpack_args_from_tuple_def single_type_def sample_env_def sample_to_type_def
        is_argspec_compatible_with_types_def get_callargs_for_argspec_def num_defaults_def
        dict_contains_def dict_of_items_def)

text \<open>
  Claim C1. Take a callable with an argspec \<open>s\<close> and a parameter type \<open>pt\<close> that is
  present. Let \<open>single\<close> be the answer of \<^verbatim>\<open>is_argspec_compatible_with_types\<close> for \<open>pt\<close> as
  the one positional argument, \<open>shaped\<close> the answer of \<^verbatim>\<open>is_argument_tuple\<close> for \<open>pt\<close>,
  and, when \<open>pt\<close> is so shaped, \<open>multi\<close> the answer of
  \<^verbatim>\<open>is_argspec_compatible_with_types\<close> for the parts that \<^verbatim>\<open>unpack_args_from_tuple\<close>
  makes of \<open>pt\<close>. Unpacking is required when \<open>single\<close> is false and possible when \<open>shaped\<close>
  and \<open>multi\<close> are true. With \<^verbatim>\<open>unpack=None\<close> the function fails with the message of
  \<open>AmbiguousUnpackingChoice\<close> exactly when unpacking is not required and possible, and
  with that of \<open>CannotAcceptEitherForm\<close> exactly when it is required and not possible;
  otherwise the two values agree and it returns the adapter that unpacks into those
  parts when they are true, and the adapter that passes the argument on when they are
  false. For each of the three preferences the failure raised is the first one of the
  table, in the stated order.
\<close>

theorem wrap_infer_ambiguity:
  assumes "get_argspec func = Inr s"
      and "to_type E parameter_type0 = Inr (Some pt)"
      and "is_argspec_compatible_with_types E s [pt] [] = Inr single"
      and "is_argument_tuple E pt = Inr shaped"
      and "shaped \<longrightarrow> unpack_args_from_tuple E pt = Inr (ats, kts)
                     \<and> is_argspec_compatible_with_types E s ats kts = Inr multi"
  shows "(wrap_as_zero_or_one_arg_callable E func parameter_type0 UnpackNone
            = Inl (TypeError AmbiguousUnpackingChoice) \<longleftrightarrow> single \<and> shaped \<and> multi)
       \<and> (wrap_as_zero_or_one_arg_callable E func parameter_type0 UnpackNone
            = Inl (TypeError CannotAcceptEitherForm) \<longleftrightarrow> \<not> single \<and> \<not> (shaped \<and> multi))
       \<and> (\<not> single \<and> shaped \<and> multi
            \<longrightarrow> wrap_as_zero_or_one_arg_callable E func parameter_type0 UnpackNone
                = Inr (UnpackAndCall func ats kts))
       \<and> (single \<and> \<not> (shaped \<and> multi)
            \<longrightarrow> wrap_as_zero_or_one_arg_callable E func parameter_type0 UnpackNone
                = Inr (CallSingle func pt))
       \<and> (\<forall>a. wrap_as_zero_or_one_arg_callable E func parameter_type0 UnpackNone = Inr a
              \<longrightarrow> (\<not> single) = (shaped \<and> multi) \<and> adapter_unpacks a = (shaped \<and> multi))
       \<and> (\<forall>preference m. resolution_table preference (\<not> single) (shaped \<and> multi) = Some m
              \<longrightarrow> wrap_as_zero_or_one_arg_callable E func parameter_type0 (unpack_of preference)
                    = Inl (TypeError m))
       \<and> (\<forall>preference. resolution_table preference (\<not> single) (shaped \<and> multi) = None
              \<longrightarrow> (\<exists>a. wrap_as_zero_or_one_arg_callable E func parameter_type0
                            (unpack_of preference) = Inr a
                       \<and> adapter_unpacks a = effective_unpack preference (shaped \<and> multi)))"
proof -
  note r = wrap_resolved[OF assms]
  have none: "wrap_as_zero_or_one_arg_callable E func parameter_type0 UnpackNone
           = (case resolution_table Infer (\<not> single) (shaped \<and> multi) of
                Some m \<Rightarrow> Inl (TypeError m)
              | None \<Rightarrow>
                  (if effective_unpack Infer (shaped \<and> multi) then
                     Inr (UnpackAndCall func ats kts)
                   else Inr (CallSingle func pt)))"
    using r[of Infer] by simp
  have a: "wrap_as_zero_or_one_arg_callable E func parameter_type0 UnpackNone
            = Inl (TypeError AmbiguousUnpackingChoice) \<longleftrightarrow> single \<and> shaped \<and> multi"
    unfolding none by (cases single; cases shaped; cases multi) (simp_all add: effective_unpack_def)
  have b: "wrap_as_zero_or_one_arg_callable E func parameter_type0 UnpackNone
            = Inl (TypeError CannotAcceptEitherForm) \<longleftrightarrow> \<not> single \<and> \<not> (shaped \<and> multi)"
    unfolding none by (cases single; cases shaped; cases multi) (simp_all add: effective_unpack_def)
  have c: "\<not> single \<and> shaped \<and> multi
            \<longrightarrow> wrap_as_zero_or_one_arg_callable E func parameter_type0 UnpackNone
                = Inr (UnpackAndCall func ats kts)"
    unfolding none by (simp add: effective_unpack_def)
  have d: "single \<and> \<not> (shaped \<and> multi)
            \<longrightarrow> wrap_as_zero_or_one_arg_callable E func parameter_type0 UnpackNone
                = Inr (CallSingle func pt)"
    unfolding none by (cases shaped; cases multi) (simp_all add: effective_unpack_def)
  have e: "\<forall>a. wrap_as_zero_or_one_arg_callable E func parameter_type0 UnpackNone = Inr a
              \<longrightarrow> (\<not> single) = (shaped \<and> multi) \<and> adapter_unpacks a = (shaped \<and> multi)"
    unfolding none by (cases single; cases shaped; cases multi) (auto simp: effective_unpack_def)
  have f: "\<forall>preference m. resolution_table preference (\<not> single) (shaped \<and> multi) = Some m
              \<longrightarrow> wrap_as_zero_or_one_arg_callable E func parameter_type0 (unpack_of preference)
                    = Inl (TypeError m)"
  proof (intro allI impI)
    fix preference m
    assume "resolution_table preference (\<not> single) (shaped \<and> multi) = Some m"
    with r[of preference]
    show "wrap_as_zero_or_one_arg_callable E func parameter_type0 (unpack_of preference)
            = Inl (TypeError m)"
      by simp
  qed
  have g: "\<forall>preference. resolution_table preference (\<not> single) (shaped \<and> multi) = None
              \<longrightarrow> (\<exists>a. wrap_as_zero_or_one_arg_callable E func parameter_type0
                            (unpack_of preference) = Inr a
                       \<and> adapter_unpacks a = effective_unpack preference (shaped \<and> multi))"
  proof (intro allI impI)
    fix preference
    assume "resolution_table preference (\<not> single) (shaped \<and> multi) = None"
    with r[of preference]
    show "\<exists>a. wrap_as_zero_or_one_arg_callable E func parameter_type0
                  (unpack_of preference) = Inr a
             \<and> adapter_unpacks a = effective_unpack preference (shaped \<and> multi)"
      by simp
  qed
  from a b c d e f g show ?thesis by blast
qed

theorem wrap_infer_ambiguity_witness:
  "wrap_as_zero_or_one_arg_callable sample_env func_xy pair_type UnpackNone
     = Inr (UnpackAndCall func_xy [int32, int32] [])
   \<and> wrap_as_zero_or_one_arg_callable sample_env func_x single_type UnpackNone
       = Inl (TypeError AmbiguousUnpackingChoice)"
proof -
  have g1: "get_argspec func_xy
      = Inr \<lparr>args = [''x'', ''y''], varargs = None, keywords_name = None, defaults = None\<rparr>"
    by (simp add: func_xy_def)
  have g2: "get_argspec func_x
      = Inr \<lparr>args = [''x''], varargs = None, keywords_name = None, defaults = None\<rparr>"
    by (simp add: func_x_def)
  have t1: "to_type sample_env pair_type = Inr (Some pair_type)"
    by (simp add: sample_env_def sample_to_type_def pair_type_def)
  have t2: "to_type sample_env single_type = Inr (Some single_type)"
    by (simp add: sample_env_def sample_to_type_def single_type_def)
  from wrap_infer_ambiguity[OF g1 t1 sample_single_xy sample_shaped_xy sample_multi_xy]
       wrap_infer_ambiguity[OF g2 t2 sample_single_x sample_shaped_x sample_multi_x]
  show ?thesis by blast
qed

section \<open>The verification of the defaults\<close>

lemma verify_defaults_step:
  "default_passes E names callargs (nwd + int idx) d \<Longrightarrow>
     verify_defaults E names callargs nwd idx (d # ds)
       = verify_defaults E names callargs nwd (Suc idx) ds"
  by (auto simp: default_passes_def)

lemma verify_defaults_stop:
  "\<not> default_passes E names callargs (nwd + int idx) d \<Longrightarrow>
     verify_defaults E names callargs nwd idx (d # ds) \<noteq> Inr True"
  by (auto simp: default_passes_def split: sum.splits option.splits)

lemma verify_defaults_True:
  "verify_defaults E names callargs nwd idx ds = Inr True \<longleftrightarrow>
     (\<forall>i<length ds. default_passes E names callargs (nwd + int (idx + i)) (ds ! i))"
proof (induction ds arbitrary: idx)
  case Nil
  show ?case by simp
next
  case (Cons d ds)
  show ?case
  proof (cases "default_passes E names callargs (nwd + int idx) d")
    case True
    have "(\<forall>i<length (d # ds). default_passes E names callargs (nwd + int (idx + i)) ((d # ds) ! i))
          = (\<forall>i<length ds. default_passes E names callargs (nwd + int (Suc idx + i)) (ds ! i))"
      using True by (simp add: All_less_Suc2 algebra_simps)
    with Cons.IH[of "Suc idx"] verify_defaults_step[OF True] show ?thesis by simp
  next
    case False
    then have "\<not> (\<forall>i<length (d # ds). default_passes E names callargs (nwd + int (idx + i)) ((d # ds) ! i))"
      by (auto intro: exI[of _ 0])
    with verify_defaults_stop[OF False] show ?thesis by blast
  qed
qed

lemma verify_defaults_skip:
  "i \<le> length ds \<Longrightarrow>
   \<forall>j<i. default_passes E names callargs (nwd + int (idx + j)) (ds ! j) \<Longrightarrow>
     verify_defaults E names callargs nwd idx ds
       = verify_defaults E names callargs nwd (idx + i) (drop i ds)"
proof (induction i arbitrary: idx ds)
  case 0
  show ?case by simp
next
  case (Suc i)
  then obtain d ds' where ds: "ds = d # ds'" by (cases ds) auto
  from Suc.prems(2) have p0: "default_passes E names callargs (nwd + int idx) d"
    unfolding ds by (auto dest: spec[of _ 0])
  have rest: "\<forall>j<i. default_passes E names callargs (nwd + int (Suc idx + j)) (ds' ! j)"
  proof (intro allI impI)
    fix j assume "j < i"
    then have "Suc j < Suc i" by simp
    with Suc.prems(2) have "default_passes E names callargs (nwd + int (idx + Suc j)) (ds ! Suc j)"
      by blast
    then show "default_passes E names callargs (nwd + int (Suc idx + j)) (ds' ! j)"
      by (simp add: ds)
  qed
  from Suc.prems(1) have "i \<le> length ds'" by (simp add: ds)
  from Suc.IH[OF this rest] verify_defaults_step[OF p0] show ?case by (simp add: ds)
qed

lemma get_callargs_loop_keys:
  "get_callargs_loop nwd dflts posargs kwargs idx names result = Inr r \<Longrightarrow>
     fst ` set r = fst ` set result \<union> set names"
proof (induction names arbitrary: idx result)
  case Nil
  then show ?case by simp
next
  case (Cons n names)
  from Cons.prems obtain x where
    "get_callargs_loop nwd dflts posargs kwargs (Suc idx) names (AList.update n x result) = Inr r"
    by (auto split: if_splits option.splits sum.splits)
  from Cons.IH[OF this] show ?case by (auto simp: dom_update)
qed



lemma getitem_default_name:
  "length ds \<le> length names \<Longrightarrow> i < length ds \<Longrightarrow>
     py_getitem names (int (length names) - int (length ds) + int (0 + i))
       = Inr (names ! (length names - length ds + i))"
  by (simp add: py_getitem_def nat_add_distrib nat_diff_distrib)

lemma is_compatible_with_defaults:
  assumes "defaults s = Some ds" "ds \<noteq> []"
      and "get_callargs_for_argspec E s posargs kwargs = Inr callargs"
  shows "is_argspec_compatible_with_types E s posargs kwargs
           = verify_defaults E (args s) callargs (int (length (args s)) - int (length ds)) 0 ds"
  using assms get_callargs_no_clash[OF assms(3)]
  by (simp add: is_argspec_compatible_with_types_def)

lemma sample_callargs:
  "get_callargs_for_argspec sample_env spec_ab [x, y] [] = Inr [(''a'', x), (''b'', y)]"
  by (simp add: get_callargs_for_argspec_def spec_ab_def num_defaults_def dict_contains_def
        dict_of_items_def sample_env_def)



lemma verify_defaults_reaches:
  assumes "i < length ds"
      and "\<forall>j<i. default_passes E names callargs (nwd + int (0 + j)) (ds ! j)"
  shows "verify_defaults E names callargs nwd 0 ds
           = verify_defaults E names callargs nwd i (ds ! i # drop (Suc i) ds)"
proof -
  from assms(1) have "i \<le> length ds" by simp
  from verify_defaults_skip[OF this assms(2)] assms(1) show ?thesis
    by (simp add: Cons_nth_drop_Suc)
qed

text \<open>
  Claim C9. A \<^verbatim>\<open>TypeError\<close> raised while the binding is built makes
  \<^verbatim>\<open>is_argspec_compatible_with_types\<close> return \<^verbatim>\<open>False\<close>; the call that builds the binding
  is the one in the \<^verbatim>\<open>try\<close> block, which is reached when no keyword argument is named
  \<^verbatim>\<open>argspec\<close> (with such a keyword the call of the function itself raises). An exception raised in the loop
  over the defaults is not caught: when the loop reaches a default that is not \<^verbatim>\<open>None\<close>
  and not the bound object, and \<open>to_type\<close> raises on the bound object, or \<open>infer_type\<close>
  raises on the default, the exception is the outcome of the function, which then
  returns no boolean.
\<close>

theorem type_error_in_defaults_loop_propagates:
  "(\<forall>m. \<not> dict_contains kwargs ''argspec''
        \<and> get_callargs_for_argspec E s posargs kwargs = Inl (TypeError m)
        \<longrightarrow> is_argspec_compatible_with_types E s posargs kwargs = Inr False)
   \<and> (dict_contains kwargs ''argspec''
        \<longrightarrow> is_argspec_compatible_with_types E s posargs kwargs
            = Inl (TypeError (MultipleValuesForArgument ''argspec'')))
   \<and> (\<forall>callargs ds i name c.
         get_callargs_for_argspec E s posargs kwargs = Inr callargs
         \<and> defaults s = Some ds \<and> i < length ds
         \<and> (\<forall>j<i. default_passes E (args s) callargs
                       (int (length (args s)) - int (length ds) + int (0 + j)) (ds ! j))
         \<and> val (ds ! i) \<noteq> PyNone
         \<and> py_getitem (args s) (int (length (args s)) - int (length ds) + int i) = Inr name
         \<and> map_of callargs name = Some c \<and> \<not> py_is c (ds ! i)
         \<longrightarrow> (\<forall>e. to_type E c = Inl e
                   \<longrightarrow> is_argspec_compatible_with_types E s posargs kwargs = Inl e)
           \<and> (\<forall>e t. to_type E c = Inr t \<and> infer_type E (ds ! i) = Inl e
                   \<longrightarrow> is_argspec_compatible_with_types E s posargs kwargs = Inl e))"
proof (intro conjI allI impI)
  fix m assume "\<not> dict_contains kwargs ''argspec''
        \<and> get_callargs_for_argspec E s posargs kwargs = Inl (TypeError m)"
  then show "is_argspec_compatible_with_types E s posargs kwargs = Inr False"
    by (simp add: is_argspec_compatible_with_types_def)
next
  assume "dict_contains kwargs ''argspec''"
  then show "is_argspec_compatible_with_types E s posargs kwargs
            = Inl (TypeError (MultipleValuesForArgument ''argspec''))"
    by (simp add: is_argspec_compatible_with_types_def)
next
  fix callargs ds i name c e
  assume h: "get_callargs_for_argspec E s posargs kwargs = Inr callargs
         \<and> defaults s = Some ds \<and> i < length ds
         \<and> (\<forall>j<i. default_passes E (args s) callargs
                       (int (length (args s)) - int (length ds) + int (0 + j)) (ds ! j))
         \<and> val (ds ! i) \<noteq> PyNone
         \<and> py_getitem (args s) (int (length (args s)) - int (length ds) + int i) = Inr name
         \<and> map_of callargs name = Some c \<and> \<not> py_is c (ds ! i)"
    and e: "to_type E c = Inl e"
  from h have ne: "ds \<noteq> []" by auto
  from h have d: "defaults s = Some ds" and g: "get_callargs_for_argspec E s posargs kwargs = Inr callargs"
    by simp_all
  from h have i: "i < length ds" and p: "\<forall>j<i. default_passes E (args s) callargs
                       (int (length (args s)) - int (length ds) + int (0 + j)) (ds ! j)"
    by simp_all
  show "is_argspec_compatible_with_types E s posargs kwargs = Inl e"
    unfolding is_compatible_with_defaults[OF d ne g] verify_defaults_reaches[OF i p]
    using h e by simp
next
  fix callargs ds i name c e t
  assume h: "get_callargs_for_argspec E s posargs kwargs = Inr callargs
         \<and> defaults s = Some ds \<and> i < length ds
         \<and> (\<forall>j<i. default_passes E (args s) callargs
                       (int (length (args s)) - int (length ds) + int (0 + j)) (ds ! j))
         \<and> val (ds ! i) \<noteq> PyNone
         \<and> py_getitem (args s) (int (length (args s)) - int (length ds) + int i) = Inr name
         \<and> map_of callargs name = Some c \<and> \<not> py_is c (ds ! i)"
    and e: "to_type E c = Inr t \<and> infer_type E (ds ! i) = Inl e"
  from h have ne: "ds \<noteq> []" by auto
  from h have d: "defaults s = Some ds" and g: "get_callargs_for_argspec E s posargs kwargs = Inr callargs"
    by simp_all
  from h have i: "i < length ds" and p: "\<forall>j<i. default_passes E (args s) callargs
                       (int (length (args s)) - int (length ds) + int (0 + j)) (ds ! j)"
    by simp_all
  show "is_argspec_compatible_with_types E s posargs kwargs = Inl e"
    unfolding is_compatible_with_defaults[OF d ne g] verify_defaults_reaches[OF i p]
    using h e by simp
qed

theorem type_error_in_defaults_loop_propagates_witness:
  "is_argspec_compatible_with_types sample_env spec_ab [] [] = Inr False
   \<and> is_argspec_compatible_with_types sample_env spec_ab [obj1, obj2] []
       = Inl (TypeError (ExternalTypeError ''to_type''))
   \<and> is_argspec_compatible_with_types sample_env spec_ab [obj1] [(''argspec'', obj2)]
       = Inl (TypeError (MultipleValuesForArgument ''argspec''))"
proof -
  have n: "\<not> dict_contains ([] :: dict) ''argspec''" by simp
  have y: "dict_contains [(''argspec'', obj2)] ''argspec''" by (simp add: dict_contains_def)
  have a: "get_callargs_for_argspec sample_env spec_ab [] []
             = Inl (TypeError (MissingArgument ''a''))"
    by (simp add: get_callargs_for_argspec_def spec_ab_def num_defaults_def dict_contains_def)
  have b: "get_callargs_for_argspec sample_env spec_ab [obj1, obj2] []
             = Inr [(''a'', obj1), (''b'', obj2)]
         \<and> defaults spec_ab = Some [five] \<and> 0 < length [five]
         \<and> (\<forall>j<0. default_passes sample_env (args spec_ab) [(''a'', obj1), (''b'', obj2)]
                       (int (length (args spec_ab)) - int (length [five]) + int (0 + j)) ([five] ! j))
         \<and> val ([five] ! 0) \<noteq> PyNone
         \<and> py_getitem (args spec_ab) (int (length (args spec_ab)) - int (length [five]) + int 0)
             = Inr ''b''
         \<and> map_of [(''a'', obj1), (''b'', obj2)] ''b'' = Some obj2 \<and> \<not> py_is obj2 ([five] ! 0)"
    using sample_callargs[of obj1 obj2]
    by (simp add: spec_ab_def five_def py_getitem_def py_is_def obj2_def)
  have c: "to_type sample_env obj2 = Inl (TypeError (ExternalTypeError ''to_type''))"
    by (simp add: sample_env_def sample_to_type_def obj2_def)
  from type_error_in_defaults_loop_propagates
         [where E = sample_env and s = spec_ab and posargs = "[]" and kwargs = "[]"] n a
  have 1: "is_argspec_compatible_with_types sample_env spec_ab [] [] = Inr False" by blast
  from type_error_in_defaults_loop_propagates
         [where E = sample_env and s = spec_ab and posargs = "[obj1]"
            and kwargs = "[(''argspec'', obj2)]"] y
  have 3: "is_argspec_compatible_with_types sample_env spec_ab [obj1] [(''argspec'', obj2)]
       = Inl (TypeError (MultipleValuesForArgument ''argspec''))" by blast
  from type_error_in_defaults_loop_propagates
         [where E = sample_env and s = spec_ab and posargs = "[obj1, obj2]" and kwargs = "[]"] b c
  have 2: "is_argspec_compatible_with_types sample_env spec_ab [obj1, obj2] []
       = Inl (TypeError (ExternalTypeError ''to_type''))" by blast
  from 1 2 3 show ?thesis by blast
qed

section \<open>One more keyword argument\<close>

lemma map_of_added_keyword:
  "k \<notin> fst ` set kw \<Longrightarrow>
     map_of (kw @ [(k, v)]) n = (if n = k then Some v else map_of kw n)"
  by (induction kw) auto

lemma dict_contains_added_keyword:
  "k \<notin> fst ` set kw \<Longrightarrow> dict_contains (kw @ [(k, v)]) n = (n = k \<or> dict_contains kw n)"
  using map_of_added_keyword[of k kw v n] by (auto simp: dict_contains_def)

lemma loop_add_keyword:
  assumes "get_callargs_loop nwd d pa kw idx names res = Inr r"
      and "k \<notin> fst ` set kw"
      and "\<forall>p<length names. names ! p = k \<longrightarrow> length pa \<le> idx + p"
      and "\<forall>n. n \<noteq> k \<longrightarrow> map_of res' n = map_of res n"
  shows "\<exists>r'. get_callargs_loop nwd d pa (kw @ [(k, v)]) idx names res' = Inr r'
           \<and> (\<forall>n. n \<noteq> k \<longrightarrow> map_of r' n = map_of r n)
           \<and> (k \<in> set names \<longrightarrow> map_of r' k = Some v)
           \<and> (k \<notin> set names \<longrightarrow> map_of r' k = map_of res' k)"
  using assms
proof (induction names arbitrary: idx res res')
  case Nil
  then show ?case by simp
next
  case (Cons n names)
  have shift: "\<forall>p<length names. names ! p = k \<longrightarrow> length pa \<le> Suc idx + p"
  proof (intro allI impI)
    fix p assume "p < length names" "names ! p = k"
    then have "Suc p < length (n # names)" "(n # names) ! Suc p = k" by simp_all
    with Cons.prems(3) have "length pa \<le> idx + Suc p" by blast
    then show "length pa \<le> Suc idx + p" by simp
  qed
  have head: "n = k \<longrightarrow> length pa \<le> idx"
    using Cons.prems(3) by (auto dest: spec[of _ 0])
  have same: "\<exists>r'. get_callargs_loop nwd d pa (kw @ [(k, v)]) (Suc idx) names (AList.update n x res') = Inr r'
           \<and> (\<forall>m. m \<noteq> k \<longrightarrow> map_of r' m = map_of r m)
           \<and> (k \<in> set (n # names) \<longrightarrow> map_of r' k = Some v)
           \<and> (k \<notin> set (n # names) \<longrightarrow> map_of r' k = map_of res' k)"
    if run: "get_callargs_loop nwd d pa kw (Suc idx) names (AList.update n x res) = Inr r"
      and nk: "n \<noteq> k" for x
  proof -
    have rel: "\<forall>m. m \<noteq> k \<longrightarrow> map_of (AList.update n x res') m = map_of (AList.update n x res) m"
      using Cons.prems(4) by (simp add: update_conv')
    from Cons.IH[OF run Cons.prems(2) shift rel] nk show ?thesis
      by (auto simp: update_conv')
  qed
  show ?case
  proof (cases "idx < length pa")
    case True
    with head have nk: "n \<noteq> k" by auto
    from True Cons.prems(1) have nc: "\<not> dict_contains kw n"
      and run: "get_callargs_loop nwd d pa kw (Suc idx) names (AList.update n (pa ! idx) res) = Inr r"
      by (auto split: if_splits)
    from nc nk have "\<not> dict_contains (kw @ [(k, v)]) n"
      using dict_contains_added_keyword[OF Cons.prems(2), of v n] by simp
    with True same[OF run nk] show ?thesis by simp
  next
    case False
    show ?thesis
    proof (cases "map_of kw n")
      case (Some u)
      then have nk: "n \<noteq> k" using Cons.prems(2) by (auto simp: map_of_eq_None_iff[symmetric])
      from False Some Cons.prems(1)
      have run: "get_callargs_loop nwd d pa kw (Suc idx) names (AList.update n u res) = Inr r"
        by simp
      from nk Some have "map_of (kw @ [(k, v)]) n = Some u"
        using map_of_added_keyword[OF Cons.prems(2), of v n] by (simp del: map_of_append)
      with False same[OF run nk] show ?thesis by (simp del: map_of_append)
    next
      case None
      from False None Cons.prems(1) obtain ds x where
        dx: "nwd \<le> int idx" "d = Some ds" "py_getitem ds (int idx - nwd) = Inr x"
        and run: "get_callargs_loop nwd d pa kw (Suc idx) names (AList.update n x res) = Inr r"
        by (auto split: if_splits option.splits sum.splits)
      show ?thesis
      proof (cases "n = k")
        case True
        have rel: "\<forall>m. m \<noteq> k \<longrightarrow> map_of (AList.update n v res') m = map_of (AList.update n x res) m"
          using Cons.prems(4) True by (simp add: update_conv')
        from Cons.IH[OF run Cons.prems(2) shift rel] obtain r' where
          r': "get_callargs_loop nwd d pa (kw @ [(k, v)]) (Suc idx) names (AList.update n v res') = Inr r'"
          "\<forall>m. m \<noteq> k \<longrightarrow> map_of r' m = map_of r m"
          "k \<in> set names \<longrightarrow> map_of r' k = Some v"
          "k \<notin> set names \<longrightarrow> map_of r' k = map_of (AList.update n v res') k"
          by blast
        have kv: "map_of r' k = Some v"
          using r'(3,4) True by (cases "k \<in> set names") (simp_all add: update_conv')
        have "map_of (kw @ [(k, v)]) n = Some v"
          using True map_of_added_keyword[OF Cons.prems(2), of v n] by (simp del: map_of_append)
        with False r'(1,2) kv True show ?thesis by (simp del: map_of_append)
      next
        case nk: False
        from nk None have "map_of (kw @ [(k, v)]) n = None"
          using map_of_added_keyword[OF Cons.prems(2), of v n] by (simp del: map_of_append)
        with False dx same[OF run nk] show ?thesis by (simp del: map_of_append)
      qed
    qed
  qed
qed

lemma foldl_update_nonempty:
  "d \<noteq> [] \<Longrightarrow> foldl (\<lambda>d (k, v). AList.update k v d) d xs \<noteq> []"
  by (induction xs arbitrary: d) (auto simp: case_prod_unfold)

lemma dict_of_items_empty: "dict_of_items xs = [] \<longleftrightarrow> xs = []"
proof (cases xs)
  case Nil
  then show ?thesis by (simp add: dict_of_items_def)
next
  case (Cons x xs')
  obtain a b where x: "x = (a, b)" by (cases x)
  have "AList.update a b [] \<noteq> []" by simp
  from foldl_update_nonempty[OF this, of xs'] Cons x show ?thesis
    by (simp add: dict_of_items_def)
qed

lemma dict_contains_keys: "dict_contains d x \<longleftrightarrow> x \<in> fst ` set d"
  by (simp add: dict_contains_def map_of_eq_None_iff)

lemma get_callargs_add_keyword:
  assumes g: "get_callargs_for_argspec E s pa kw = Inr callargs"
      and kk: "k \<notin> fst ` set kw"
      and kin: "k \<in> set (args s)"
      and kpos: "k \<notin> set (take (length pa) (args s))"
      and kwn: "truthy_name (keywords_name s) \<longrightarrow> the (keywords_name s) \<notin> set (args s)"
      and it1: "set (iteritems E kw) = set kw"
      and it2: "set (iteritems E (kw @ [(k, v)])) = set (kw @ [(k, v)])"
      and ka: "k \<noteq> ''argspec''"
  shows "\<exists>callargs'. get_callargs_for_argspec E s pa (kw @ [(k, v)]) = Inr callargs'
     \<and> (\<forall>n\<in>set (args s). n \<noteq> k \<longrightarrow> map_of callargs' n = map_of callargs n)
     \<and> (map_of callargs' k = Some v \<or> map_of callargs' k = map_of callargs k)"
proof -
  define nwd where "nwd = int (length (args s)) - int (num_defaults s)"
  define va where "va = (\<lambda>r::dict. case varargs s of
                       Some va \<Rightarrow>
                         (if va \<noteq> [] then
                            AList.update va (PyObj None (PyTuple (drop (length (args s)) pa))) r
                          else r)
                     | None \<Rightarrow> r)"
  define unused where "unused = (\<lambda>kw0 (r::dict).
      dict_of_items (filter (\<lambda>(k, v). \<not> dict_contains r k) (iteritems E kw0)))"
  define fin where "fin = (\<lambda>kw0 r.
      if truthy_name (keywords_name s) then
        Inr (AList.update (the (keywords_name s)) (PyObj None (PyDict (unused kw0 r))) (va r))
      else if unused kw0 r \<noteq> [] then
        Inl (TypeError (UnexpectedKeywordArguments (unused kw0 r)))
      else Inr (va r))"
  have nc: "\<not> dict_contains kw ''argspec''" by (rule get_callargs_no_clash[OF g])
  have nc': "\<not> dict_contains (kw @ [(k, v)]) ''argspec''"
    using nc ka dict_contains_added_keyword[OF kk, of v "''argspec''"] by simp
  have unfold: "get_callargs_for_argspec E s pa kw0 =
     (if length pa > length (args s) \<and> \<not> truthy_name (varargs s) then
        Inl (TypeError (TooManyPositionalArguments (length (args s)) (length pa)))
      else
        (case get_callargs_loop nwd (defaults s) pa kw0 0 (args s) [] of
           Inl e \<Rightarrow> Inl e
         | Inr result \<Rightarrow> fin kw0 result))" if "\<not> dict_contains kw0 ''argspec''" for kw0
    using that
    by (simp add: get_callargs_for_argspec_def Let_def nwd_def fin_def unused_def va_def
          split: sum.splits)
  from g have tm: "\<not> (length pa > length (args s) \<and> \<not> truthy_name (varargs s))"
    unfolding unfold[OF nc] by (auto split: if_splits)
  from g tm obtain r where loop: "get_callargs_loop nwd (defaults s) pa kw 0 (args s) [] = Inr r"
    and f: "fin kw r = Inr callargs"
    unfolding unfold[OF nc] by (auto split: sum.splits)
  have pos: "\<forall>p<length (args s). args s ! p = k \<longrightarrow> length pa \<le> 0 + p"
  proof (intro allI impI)
    fix p assume p: "p < length (args s)" "args s ! p = k"
    show "length pa \<le> 0 + p"
    proof (rule ccontr)
      assume "\<not> length pa \<le> 0 + p"
      then have "p < length (take (length pa) (args s))" using p(1) by simp
      then have "take (length pa) (args s) ! p \<in> set (take (length pa) (args s))"
        by (rule nth_mem)
      moreover have "take (length pa) (args s) ! p = k"
        using \<open>\<not> length pa \<le> 0 + p\<close> p(2) by simp
      ultimately show False using kpos by simp
    qed
  qed
  have rel0: "\<forall>n. n \<noteq> k \<longrightarrow> map_of ([]::dict) n = map_of ([]::dict) n" by simp
  from loop_add_keyword[OF loop kk pos rel0, of v] kin obtain r' where
    loop': "get_callargs_loop nwd (defaults s) pa (kw @ [(k, v)]) 0 (args s) [] = Inr r'"
    and same: "\<forall>n. n \<noteq> k \<longrightarrow> map_of r' n = map_of r n"
    and atk: "map_of r' k = Some v"
    by blast
  have keys: "fst ` set r = set (args s)" "fst ` set r' = set (args s)"
    using get_callargs_loop_keys[OF loop] get_callargs_loop_keys[OF loop'] by simp_all
  have contains: "dict_contains r' x = dict_contains r x" for x
    by (simp add: dict_contains_keys keys)
  have kr: "dict_contains r k" using kin by (simp add: dict_contains_keys keys)
  have sets: "set (filter (\<lambda>(k, v). \<not> dict_contains r' k) (iteritems E (kw @ [(k, v)])))
            = set (filter (\<lambda>(k, v). \<not> dict_contains r k) (iteritems E kw))"
    using kr by (auto simp: it1 it2 contains)
  have empties: "unused (kw @ [(k, v)]) r' = [] \<longleftrightarrow> unused kw r = []"
  proof -
    have "unused (kw @ [(k, v)]) r' = []
            \<longleftrightarrow> set (filter (\<lambda>(k, v). \<not> dict_contains r' k) (iteritems E (kw @ [(k, v)]))) = {}"
      by (simp only: unused_def dict_of_items_empty set_empty)
    also have "\<dots> \<longleftrightarrow> set (filter (\<lambda>(k, v). \<not> dict_contains r k) (iteritems E kw)) = {}"
      by (simp only: sets)
    also have "\<dots> \<longleftrightarrow> unused kw r = []"
      by (simp only: unused_def dict_of_items_empty set_empty)
    finally show ?thesis .
  qed
  have va_same: "\<forall>n. n \<noteq> k \<longrightarrow> map_of (va r') n = map_of (va r) n"
    using same by (simp add: va_def update_conv' split: option.splits)
  have va_k: "map_of (va r') k = Some v \<or> map_of (va r') k = map_of (va r) k"
    using atk by (simp add: va_def update_conv' split: option.splits)
  show ?thesis
  proof (cases "truthy_name (keywords_name s)")
    case True
    let ?kn = "the (keywords_name s)"
    from True kwn have out: "?kn \<notin> set (args s)" by simp
    with kin have kne: "k \<noteq> ?kn" by auto
    from f True have c: "callargs = AList.update ?kn (PyObj None (PyDict (unused kw r))) (va r)"
      by (simp add: fin_def)
    let ?c' = "AList.update ?kn (PyObj None (PyDict (unused (kw @ [(k, v)]) r'))) (va r')"
    have 1: "get_callargs_for_argspec E s pa (kw @ [(k, v)]) = Inr ?c'"
      unfolding unfold[OF nc'] using tm loop' True by (simp add: fin_def)
    have 2: "\<forall>n\<in>set (args s). n \<noteq> k \<longrightarrow> map_of ?c' n = map_of callargs n"
      using va_same out unfolding c by (auto simp: update_conv')
    have 3: "map_of ?c' k = Some v \<or> map_of ?c' k = map_of callargs k"
      using va_k kne unfolding c by (simp add: update_conv')
    from 1 2 3 show ?thesis by blast
  next
    case False
    from f False have u: "unused kw r = []" and c: "callargs = va r"
      by (auto simp: fin_def split: if_splits)
    from u empties have u': "unused (kw @ [(k, v)]) r' = []" by simp
    have 1: "get_callargs_for_argspec E s pa (kw @ [(k, v)]) = Inr (va r')"
      unfolding unfold[OF nc'] using tm loop' False u' by (simp add: fin_def)
    from 1 va_same va_k show ?thesis unfolding c by blast
  qed
qed

lemma compatible_True_binding:
  assumes "is_argspec_compatible_with_types E s pa kw = Inr True"
  shows "\<exists>callargs. get_callargs_for_argspec E s pa kw = Inr callargs"
  using assms
  by (cases "get_callargs_for_argspec E s pa kw")
     (auto simp: is_argspec_compatible_with_types_def split: if_splits)

text \<open>
  Claim C7, as amended. Let \<^verbatim>\<open>is_argspec_compatible_with_types\<close> return \<^verbatim>\<open>True\<close> for an
  argspec and arguments without excess positional ones. Add one keyword argument \<open>k\<close>
  with value \<open>v\<close>, where \<open>k\<close> is not \<^verbatim>\<open>argspec\<close>, is the name of a default, is bound
  neither positionally nor by keyword, and the type of \<open>v\<close> is assignable from the
  inferred type of each default of \<open>k\<close> that the loop compares it with. Then the function
  returns \<^verbatim>\<open>True\<close> again. The argspec is that of a function: it has no more defaults than
  names, and its keyword collector is not a parameter name as well. The runtime is that
  of Python: \<^verbatim>\<open>iteritems\<close> enumerates exactly the items of a dict.
\<close>

theorem compatible_monotone_in_default_keyword:
  assumes ok: "is_argspec_compatible_with_types E s pa kw = Inr True"
      and d: "defaults s = Some ds"
      and len: "length ds \<le> length (args s)"
      and noexcess: "length pa \<le> length (args s)"
      and j: "j < length ds"
      and kdef: "k = args s ! (length (args s) - length ds + j)"
      and kpos: "k \<notin> set (take (length pa) (args s))"
      and kk: "k \<notin> fst ` set kw"
      and ka: "k \<noteq> ''argspec''"
      and vt: "\<forall>i<length ds. args s ! (length (args s) - length ds + i) = k
                 \<longrightarrow> val (ds ! i) \<noteq> PyNone \<longrightarrow> \<not> py_is v (ds ! i)
                 \<longrightarrow> (\<exists>t dt. to_type E v = Inr (Some t) \<and> infer_type E (ds ! i) = Inr dt
                              \<and> is_assignable_from E t dt)"
      and kwn: "truthy_name (keywords_name s) \<longrightarrow> the (keywords_name s) \<notin> set (args s)"
      and it1: "set (iteritems E kw) = set kw"
      and it2: "set (iteritems E (kw @ [(k, v)])) = set (kw @ [(k, v)])"
  shows "is_argspec_compatible_with_types E s pa (kw @ [(k, v)]) = Inr True"
proof -
  let ?n = "length (args s)"
  let ?nwd = "int ?n - int (length ds)"
  from j have ne: "ds \<noteq> []" by auto
  from compatible_True_binding[OF ok] obtain callargs where
    g: "get_callargs_for_argspec E s pa kw = Inr callargs" by blast
  from j len have "?n - length ds + j < ?n" by simp
  then have kin: "k \<in> set (args s)" unfolding kdef by (rule nth_mem)
  from get_callargs_add_keyword[OF g kk kin kpos kwn it1 it2 ka] obtain callargs' where
    g': "get_callargs_for_argspec E s pa (kw @ [(k, v)]) = Inr callargs'"
    and same: "\<forall>n\<in>set (args s). n \<noteq> k \<longrightarrow> map_of callargs' n = map_of callargs n"
    and atk: "map_of callargs' k = Some v \<or> map_of callargs' k = map_of callargs k"
    by blast
  have before: "\<forall>i<length ds. default_passes E (args s) callargs (?nwd + int (0 + i)) (ds ! i)"
    using ok unfolding is_compatible_with_defaults[OF d ne g] verify_defaults_True .
  have after: "default_passes E (args s) callargs' (?nwd + int (0 + i)) (ds ! i)"
    if i: "i < length ds" for i
  proof (cases "val (ds ! i) = PyNone")
    case True
    then show ?thesis by (simp add: default_passes_def)
  next
    case False
    let ?name = "args s ! (?n - length ds + i)"
    have gi: "py_getitem (args s) (?nwd + int (0 + i)) = Inr ?name"
      by (rule getitem_default_name[OF len i])
    from before i have "default_passes E (args s) callargs (?nwd + int (0 + i)) (ds ! i)" by blast
    with False gi obtain c where c: "map_of callargs ?name = Some c"
      and chk: "py_is c (ds ! i) \<or>
          (\<exists>t dt. to_type E c = Inr (Some t) \<and> infer_type E (ds ! i) = Inr dt
                   \<and> is_assignable_from E t dt)"
      by (auto simp: default_passes_def)
    from i len have "?n - length ds + i < ?n" by simp
    then have mem: "?name \<in> set (args s)" by (rule nth_mem)
    have "\<exists>c'. map_of callargs' ?name = Some c' \<and>
            (py_is c' (ds ! i) \<or>
             (\<exists>t dt. to_type E c' = Inr (Some t) \<and> infer_type E (ds ! i) = Inr dt
                      \<and> is_assignable_from E t dt))"
    proof (cases "?name = k")
      case nk: False
      with same mem have "map_of callargs' ?name = map_of callargs ?name" by blast
      with c chk show ?thesis by simp
    next
      case True
      from atk show ?thesis
      proof
        assume "map_of callargs' k = map_of callargs k"
        with c chk True show ?thesis by simp
      next
        assume kv: "map_of callargs' k = Some v"
        from vt i True False
        have "\<not> py_is v (ds ! i) \<longrightarrow>
                (\<exists>t dt. to_type E v = Inr (Some t) \<and> infer_type E (ds ! i) = Inr dt
                         \<and> is_assignable_from E t dt)"
          by blast
        with kv True show ?thesis by auto
      qed
    qed
    with gi show ?thesis unfolding default_passes_def by blast
  qed
  show ?thesis
    unfolding is_compatible_with_defaults[OF d ne g'] verify_defaults_True
    using after by blast
qed

theorem compatible_monotone_in_default_keyword_witness:
  "is_argspec_compatible_with_types sample_env spec_ab [int32] [] = Inr True
   \<and> is_argspec_compatible_with_types sample_env spec_ab [int32] [(''b'', int32)] = Inr True"
proof -
  have ok: "is_argspec_compatible_with_types sample_env spec_ab [int32] [] = Inr True"
    by (simp add: is_argspec_compatible_with_types_def get_callargs_for_argspec_def spec_ab_def
          num_defaults_def dict_contains_def dict_of_items_def sample_env_def py_getitem_def
          five_def py_is_def)
  have d: "defaults spec_ab = Some [five]" by (simp add: spec_ab_def)
  have len: "length [five] \<le> length (args spec_ab)" by (simp add: spec_ab_def)
  have noexcess: "length [int32] \<le> length (args spec_ab)" by (simp add: spec_ab_def)
  have j: "0 < length [five]" by simp
  have kdef: "''b'' = args spec_ab ! (length (args spec_ab) - length [five] + 0)"
    by (simp add: spec_ab_def)
  have kpos: "''b'' \<notin> set (take (length [int32]) (args spec_ab))" by (simp add: spec_ab_def)
  have kk: "''b'' \<notin> fst ` set ([] :: dict)" by simp
  have ka: "''b'' \<noteq> ''argspec''" by simp
  have vt: "\<forall>i<length [five]. args spec_ab ! (length (args spec_ab) - length [five] + i) = ''b''
                 \<longrightarrow> val ([five] ! i) \<noteq> PyNone \<longrightarrow> \<not> py_is int32 ([five] ! i)
                 \<longrightarrow> (\<exists>t dt. to_type sample_env int32 = Inr (Some t)
                              \<and> infer_type sample_env ([five] ! i) = Inr dt
                              \<and> is_assignable_from sample_env t dt)"
    by (simp add: five_def int32_def sample_env_def sample_to_type_def sample_infer_type_def
          sample_scalar_type_def)
  have kwn: "truthy_name (keywords_name spec_ab) \<longrightarrow> the (keywords_name spec_ab) \<notin> set (args spec_ab)"
    by (simp add: spec_ab_def)
  have it1: "set (iteritems sample_env []) = set []" by (simp add: sample_env_def)
  have it2: "set (iteritems sample_env ([] @ [(''b'', int32)])) = set ([] @ [(''b'', int32)])"
    by (simp add: sample_env_def)
  from compatible_monotone_in_default_keyword[OF ok d len noexcess j kdef kpos kk ka vt kwn it1 it2] ok
  show ?thesis by simp
qed

text \<open>
  Claim C7 as stated fails for the keyword \<^verbatim>\<open>argspec\<close>: for the argspec
  \<^verbatim>\<open>[a, argspec=5]\<close> and one positional type the function returns \<^verbatim>\<open>True\<close>, and with the
  keyword argument \<^verbatim>\<open>argspec\<close> added, whose type is assignable from the inferred type of
  \<^verbatim>\<open>5\<close>, the call raises a \<^verbatim>\<open>TypeError\<close>, because the first parameter of the function
  has that name.
\<close>

theorem compatible_monotone_counterexample:
  "is_argspec_compatible_with_types sample_env spec_a_argspec [int32] [] = Inr True
   \<and> is_assignable_from sample_env int32 (sample_scalar_type five)
   \<and> is_argspec_compatible_with_types sample_env spec_a_argspec [int32] [(''argspec'', int32)]
       = Inl (TypeError (MultipleValuesForArgument ''argspec''))"
  by (simp add: is_argspec_compatible_with_types_def get_callargs_for_argspec_def
        spec_a_argspec_def num_defaults_def dict_contains_def dict_of_items_def sample_env_def
        py_getitem_def five_def py_is_def int32_def sample_scalar_type_def)

end
